theory Spec2Isabelle
  imports Complex_Main "HOL-Library.Log_Nat"
begin

section \<open>Strings\<close>

text \<open>
  A JavaScript string is a sequence of UTF-16 code units. A code unit is modelled by its
  number, a string by the list of its code units; \<open>js\<close> turns an ASCII literal into one.
  The code units the program names: 9 tab, 10 line feed, 13 carriage return, 34 the double
  quote, 44 comma, 59 semicolon, 124 the bar, 65533 the replacement character U+FFFD.
\<close>

type_synonym code_unit = nat
type_synonym jstring = "code_unit list"

definition js :: "string \<Rightarrow> jstring" where
  "js s = map of_char s"

definition isWhiteSpace :: "code_unit \<Rightarrow> bool" where
  \<comment> \<open>WhiteSpace and LineTerminator of ECMAScript, the characters \<open>trim\<close> removes.\<close>
  "isWhiteSpace c \<longleftrightarrow>
     c \<in> set [9, 10, 11, 12, 13, 32, 160, 5760, 8232, 8233, 8239, 8287, 12288, 65279]
     \<or> (8192 \<le> c \<and> c \<le> 8202)"

definition trim :: "jstring \<Rightarrow> jstring" where
  "trim s = rev (dropWhile isWhiteSpace (rev (dropWhile isWhiteSpace s)))"

definition nth_opt :: "'a list \<Rightarrow> nat \<Rightarrow> 'a option" where
  \<comment> \<open>\<open>xs[i]\<close>: \<open>None\<close> is JavaScript's \<open>undefined\<close>.\<close>
  "nth_opt xs i = (if i < length xs then Some (xs ! i) else None)"

fun split_newlines :: "jstring \<Rightarrow> jstring \<Rightarrow> jstring list" where
  \<comment> \<open>\<open>text.split(/\r\n|\n/)\<close>; \<open>cur\<close> is the piece since the last match.\<close>
  "split_newlines cur [] = [cur]"
| "split_newlines cur (c # cs) =
     (if c = 13 \<and> cs \<noteq> [] \<and> hd cs = 10 then cur # split_newlines [] (tl cs)
      else if c = 10 then cur # split_newlines [] cs
      else split_newlines (cur @ [c]) cs)"

definition nonBlankLines :: "jstring \<Rightarrow> jstring list" where
  \<comment> \<open>\<open>text.split(/\r\n|\n/).filter(l => l.trim() !== '')\<close>\<close>
  "nonBlankLines text = filter (\<lambda>l. trim l \<noteq> []) (split_newlines [] text)"


section \<open>Delimiter detection\<close>

fun split_char :: "code_unit \<Rightarrow> jstring \<Rightarrow> jstring \<Rightarrow> jstring list" where
  \<comment> \<open>\<open>s.split(d)\<close> for a separator \<open>d\<close> of one code unit.\<close>
  "split_char d cur [] = [cur]"
| "split_char d cur (c # cs) =
     (if c = d then cur # split_char d [] cs else split_char d (cur @ [c]) cs)"

definition possibleDelimiters :: "code_unit list" where
  "possibleDelimiters = [44, 59, 9, 124]"

definition detectStep :: "jstring \<Rightarrow> code_unit \<Rightarrow> code_unit \<times> nat \<Rightarrow> code_unit \<times> nat" where
  \<comment> \<open>The body of the \<open>forEach\<close>; the state is \<open>(bestDelimiter, maxCount)\<close>.\<close>
  "detectStep firstLine d st =
     (let count = length (split_char d [] firstLine) - 1 in
      if count > snd st then (d, count) else st)"

definition detectDelimiter :: "jstring \<Rightarrow> code_unit" where
  "detectDelimiter firstLine = fst (fold (detectStep firstLine) possibleDelimiters (44, 0))"


section \<open>The tokenizer\<close>

text \<open>
  The split expression is the (escaped) delimiter followed by the lookahead
  \<^verbatim>\<open>(?=(?:(?:[^"]*"){2})*[^"]*$)\<close>. The lookahead is a two-state automaton over the rest of
  the line: \<open>la_outside\<close> is the state before a group \<^verbatim>\<open>(?:[^"]*"){2}\<close> or in the final
  \<^verbatim>\<open>[^"]*$\<close>, \<open>la_inside\<close> the state after the first quote of a group.
\<close>

fun la_outside :: "jstring \<Rightarrow> bool" and la_inside :: "jstring \<Rightarrow> bool" where
  "la_outside [] = True"
| "la_outside (c # cs) = (if c = 34 then la_inside cs else la_outside cs)"
| "la_inside [] = False"
| "la_inside (c # cs) = (if c = 34 then la_outside cs else la_inside cs)"

fun split_regex :: "code_unit \<Rightarrow> jstring \<Rightarrow> jstring \<Rightarrow> jstring list" where
  \<comment> \<open>\<open>line.split(splitRegex)\<close>: the expression matches at a delimiter whose lookahead holds.\<close>
  "split_regex d cur [] = [cur]"
| "split_regex d cur (c # cs) =
     (if c = d \<and> la_outside cs then cur # split_regex d [] cs
      else split_regex d (cur @ [c]) cs)"

definition strip_quotes :: "jstring \<Rightarrow> jstring" where
  \<comment> \<open>\<open>v.replace(/^"|"$/g, '')\<close>: a quote at the start, then a quote at the end of the rest.\<close>
  "strip_quotes v =
     (let w = (if v \<noteq> [] \<and> hd v = 34 then tl v else v)
      in if w \<noteq> [] \<and> last w = 34 then butlast w else w)"

definition splitLine :: "code_unit \<Rightarrow> jstring \<Rightarrow> jstring list" where
  "splitLine bestDelimiter line =
     map (\<lambda>v. strip_quotes (trim v)) (split_regex bestDelimiter [] line)"


section \<open>Numbers\<close>

text \<open>
  A JavaScript number is an IEEE 754 binary64 value: a finite value is kept as the rational
  it denotes, next to the two infinities and NaN. Negative zero is identified with zero;
  the program never divides by zero and never prints a zero, so its sign is not observed.
  \<open>fl64\<close> rounds a rational to the nearest binary64 value, ties to even: the significand
  has 53 bits, the least exponent of the last place is \<open>-1074\<close>, and a result that needs an
  exponent of the last place above 971 overflows to an infinity.
\<close>

datatype jsnum = Fin rat | PInf | NInf | NaN

definition pow2 :: "int \<Rightarrow> rat" where
  "pow2 e = (if 0 \<le> e then 2 ^ nat e else 1 / 2 ^ nat (- e))"

definition pow10 :: "int \<Rightarrow> rat" where
  "pow10 e = (if 0 \<le> e then 10 ^ nat e else 1 / 10 ^ nat (- e))"

definition ilog2 :: "rat \<Rightarrow> int" where
  \<comment> \<open>For \<open>0 < a\<close>: the \<open>e\<close> with \<open>2^e \<le> a < 2^(e+1)\<close>.\<close>
  "ilog2 a = (if 1 \<le> a then bitlen \<lfloor>a\<rfloor> - 1 else - bitlen (\<lceil>1 / a\<rceil> - 1))"

definition round_half_even :: "rat \<Rightarrow> int" where
  "round_half_even x = (let f = \<lfloor>x\<rfloor>; d = x - of_int f in
     if d < 1 / 2 then f else if 1 / 2 < d then f + 1 else if even f then f else f + 1)"

definition quantum :: "rat \<Rightarrow> int" where
  \<comment> \<open>The exponent of the unit in the last place of the binary64 values next to \<open>a > 0\<close>.\<close>
  "quantum a = max (ilog2 a - 52) (- 1074)"

definition pack :: "bool \<Rightarrow> int \<Rightarrow> int \<Rightarrow> jsnum" where
  \<comment> \<open>The value of sign, exponent \<open>q\<close> and significand \<open>m\<close>; an infinity beyond the largest one.\<close>
  "pack neg q m =
     (if 971 < q \<or> (q = 971 \<and> 2 ^ 53 \<le> m) then (if neg then NInf else PInf)
      else Fin ((if neg then - 1 else 1) * of_int m * pow2 q))"

definition fl64 :: "rat \<Rightarrow> jsnum" where
  "fl64 r = (if r = 0 then Fin 0
     else pack (r < 0) (quantum \<bar>r\<bar>) (round_half_even (\<bar>r\<bar> / pow2 (quantum \<bar>r\<bar>))))"

fun fneg :: "jsnum \<Rightarrow> jsnum" where
  "fneg (Fin a) = Fin (- a)"
| "fneg PInf = NInf"
| "fneg NInf = PInf"
| "fneg NaN = NaN"

fun fadd :: "jsnum \<Rightarrow> jsnum \<Rightarrow> jsnum" where
  "fadd (Fin a) (Fin b) = fl64 (a + b)"
| "fadd NaN y = NaN"
| "fadd x NaN = NaN"
| "fadd PInf NInf = NaN"
| "fadd NInf PInf = NaN"
| "fadd PInf y = PInf"
| "fadd x PInf = PInf"
| "fadd NInf y = NInf"
| "fadd x NInf = NInf"

definition fsub :: "jsnum \<Rightarrow> jsnum \<Rightarrow> jsnum" where
  "fsub x y = fadd x (fneg y)"

fun fmul :: "jsnum \<Rightarrow> jsnum \<Rightarrow> jsnum" where
  "fmul (Fin a) (Fin b) = fl64 (a * b)"
| "fmul NaN y = NaN"
| "fmul x NaN = NaN"
| "fmul (Fin a) y = (if a = 0 then NaN else if 0 < a then y else fneg y)"
| "fmul x (Fin b) = (if b = 0 then NaN else if 0 < b then x else fneg x)"
| "fmul PInf y = y"
| "fmul NInf y = fneg y"

fun fdiv :: "jsnum \<Rightarrow> jsnum \<Rightarrow> jsnum" where
  "fdiv (Fin a) (Fin b) =
     (if b = 0 then (if a = 0 then NaN else if 0 < a then PInf else NInf) else fl64 (a / b))"
| "fdiv NaN y = NaN"
| "fdiv x NaN = NaN"
| "fdiv (Fin a) y = Fin 0"
| "fdiv x (Fin b) = (if 0 \<le> b then x else fneg x)"
| "fdiv x y = NaN"

fun fless :: "jsnum \<Rightarrow> jsnum \<Rightarrow> bool" where
  \<comment> \<open>\<open>x < y\<close>; every comparison with NaN is false.\<close>
  "fless (Fin a) (Fin b) = (a < b)"
| "fless NaN y = False"
| "fless x NaN = False"
| "fless x NInf = False"
| "fless PInf y = False"
| "fless x y = True"

definition fle :: "jsnum \<Rightarrow> jsnum \<Rightarrow> bool" where
  \<comment> \<open>\<open>x <= y\<close>\<close>
  "fle x y \<longleftrightarrow> fless x y \<or> (x = y \<and> x \<noteq> NaN)"

definition num :: "nat \<Rightarrow> jsnum" where
  \<comment> \<open>A counter, an index or an array length: a natural number below \<open>2^53\<close>, exact in binary64.\<close>
  "num n = Fin (of_nat n)"

definition Math_min :: "jsnum list \<Rightarrow> jsnum" where
  "Math_min xs = fold (\<lambda>x m. if x = NaN \<or> m = NaN then NaN else if fless x m then x else m) xs PInf"

definition Math_max :: "jsnum list \<Rightarrow> jsnum" where
  "Math_max xs = fold (\<lambda>x m. if x = NaN \<or> m = NaN then NaN else if fless m x then x else m) xs NInf"

fun Math_floor :: "jsnum \<Rightarrow> jsnum" where
  "Math_floor (Fin a) = Fin (of_int \<lfloor>a\<rfloor>)"
| "Math_floor x = x"

fun index_at :: "'a list \<Rightarrow> jsnum \<Rightarrow> 'a option" where
  \<comment> \<open>\<open>xs[k]\<close> for a number \<open>k\<close>: an element only at an integer index within the array.\<close>
  "index_at xs (Fin a) =
     (if 0 \<le> a \<and> a = of_int \<lfloor>a\<rfloor> then nth_opt xs (nat \<lfloor>a\<rfloor>) else None)"
| "index_at xs x = None"

definition onGrid :: "rat \<Rightarrow> bool" where
  \<comment> \<open>A multiple of \<open>2^-1074\<close>, as every finite binary64 value is.\<close>
  "onGrid r \<longleftrightarrow> of_int \<lfloor>r * pow2 1074\<rfloor> = r * pow2 1074"

fun b64 :: "jsnum \<Rightarrow> bool" where
  \<comment> \<open>A number other than NaN whose finite value lies on that grid.\<close>
  "b64 (Fin r) = onGrid r"
| "b64 NaN = False"
| "b64 x = True"

subsection \<open>\<open>Number(v)\<close>\<close>

text \<open>
  \<open>StringToNumber\<close> follows the StringNumericLiteral grammar of ECMAScript: white space around
  the literal is skipped and an empty literal is 0; a literal is \<open>0x\<close>, \<open>0o\<close> or \<open>0b\<close> with
  digits of that radix, or an optional sign before \<open>Infinity\<close> or a decimal literal with an
  optional fraction and exponent. Anything else is NaN. The value is the binary64 value
  nearest to the literal's mathematical value, as the engines compute it.
\<close>

definition isDigit :: "code_unit \<Rightarrow> bool" where
  "isDigit c \<longleftrightarrow> 48 \<le> c \<and> c \<le> 57"

definition digitOf :: "code_unit \<Rightarrow> nat option" where
  "digitOf c = (if 48 \<le> c \<and> c \<le> 57 then Some (c - 48)
     else if 97 \<le> c \<and> c \<le> 102 then Some (c - 87)
     else if 65 \<le> c \<and> c \<le> 70 then Some (c - 55) else None)"

definition isRadixDigit :: "nat \<Rightarrow> code_unit \<Rightarrow> bool" where
  "isRadixDigit b c = (case digitOf c of None \<Rightarrow> False | Some v \<Rightarrow> v < b)"

definition radixVal :: "nat \<Rightarrow> jstring \<Rightarrow> nat" where
  "radixVal b ds = foldl (\<lambda>a c. b * a + (case digitOf c of None \<Rightarrow> 0 | Some v \<Rightarrow> v)) 0 ds"

definition nonDecimal :: "jstring \<Rightarrow> rat option" where
  "nonDecimal s = (case s of
       z # x # ds \<Rightarrow>
         if z = 48 \<and> ds \<noteq> [] then
           (if (x = 120 \<or> x = 88) \<and> list_all (isRadixDigit 16) ds then Some (of_nat (radixVal 16 ds))
            else if (x = 111 \<or> x = 79) \<and> list_all (isRadixDigit 8) ds then Some (of_nat (radixVal 8 ds))
            else if (x = 98 \<or> x = 66) \<and> list_all (isRadixDigit 2) ds then Some (of_nat (radixVal 2 ds))
            else None)
         else None
     | _ \<Rightarrow> None)"

definition signedInteger :: "jstring \<Rightarrow> int option" where
  "signedInteger s =
     (let neg = (s \<noteq> [] \<and> hd s = 45);
          ds = (if s \<noteq> [] \<and> (hd s = 43 \<or> hd s = 45) then tl s else s)
      in if ds \<noteq> [] \<and> list_all isDigit ds
         then Some ((if neg then - 1 else 1) * int (radixVal 10 ds)) else None)"

definition exponentPart :: "jstring \<Rightarrow> int option" where
  \<comment> \<open>What follows the digits: nothing, or \<open>e\<close>/\<open>E\<close> and a signed integer up to the end.\<close>
  "exponentPart s = (case s of [] \<Rightarrow> Some 0
     | e # r \<Rightarrow> if e = 101 \<or> e = 69 then signedInteger r else None)"

definition unsignedDecimal :: "jstring \<Rightarrow> jsnum" where
  "unsignedDecimal s =
     (if s = js ''Infinity'' then PInf else
      let ip = takeWhile isDigit s; r1 = dropWhile isDigit s;
          hasDot = (r1 \<noteq> [] \<and> hd r1 = 46);
          fp = (if hasDot then takeWhile isDigit (tl r1) else []);
          r2 = (if hasDot then dropWhile isDigit (tl r1) else r1)
      in if ip = [] \<and> fp = [] then NaN
         else case exponentPart r2 of
                None \<Rightarrow> NaN
              | Some e \<Rightarrow> fl64 (of_nat (radixVal 10 (ip @ fp)) * pow10 (e - int (length fp))))"

definition StringToNumber :: "jstring \<Rightarrow> jsnum" where
  "StringToNumber str =
     (let s = trim str in
      if s = [] then Fin 0
      else case nonDecimal s of
             Some r \<Rightarrow> fl64 r
           | None \<Rightarrow>
               if hd s = 43 then unsignedDecimal (tl s)
               else if hd s = 45 then fneg (unsignedDecimal (tl s))
               else unsignedDecimal s)"


section \<open>Sorting\<close>

text \<open>
  \<open>Array.prototype.sort\<close> is stable; with a comparator that orders the elements
  consistently its result is the one of a stable insertion sort. \<open>after x y\<close> says that
  the comparator is positive at \<open>(x, y)\<close>: \<open>x\<close> goes behind \<open>y\<close>.
\<close>

fun insertBy :: "('a \<Rightarrow> 'a \<Rightarrow> bool) \<Rightarrow> 'a \<Rightarrow> 'a list \<Rightarrow> 'a list" where
  "insertBy after x [] = [x]"
| "insertBy after x (y # ys) = (if after x y then y # insertBy after x ys else x # y # ys)"

definition sortBy :: "('a \<Rightarrow> 'a \<Rightarrow> bool) \<Rightarrow> 'a list \<Rightarrow> 'a list" where
  "sortBy after xs = foldr (insertBy after) xs []"

definition sortNumbers :: "jsnum list \<Rightarrow> jsnum list" where
  \<comment> \<open>\<open>sort((a, b) => a - b)\<close>: a NaN from the comparator counts as 0.\<close>
  "sortNumbers xs = sortBy (\<lambda>a b. fless (Fin 0) (fsub a b)) xs"


section \<open>The profile\<close>

datatype error =
    EncodingError
  | InsufficientData
  | ColumnDetection
  | DataIntegrity nat nat nat
    \<comment> \<open>\<open>malformedCount\<close>, \<open>validationLimit\<close>, \<open>expectedColumnCount\<close> of the message\<close>

datatype coltype = TNumeric | TString | TDate | TBoolean | TUnknown

datatype label =
    Text jstring          \<comment> \<open>a (truncated) value of the column\<close>
  | ToFixed1 jsnum        \<comment> \<open>\<open>rangeStart.toFixed(1)\<close>\<close>
  | NumToString jsnum     \<comment> \<open>\<open>min.toString()\<close>\<close>
  | IsoDay jsnum          \<comment> \<open>\<open>new Date(t).toISOString().split('T')[0]\<close>\<close>

datatype count =
    Count nat
      \<comment> \<open>a number\<close>
  | Appended jstring nat
      \<comment> \<open>a string: the text the host gives for the inherited method of that name, with
          that many digits \<open>1\<close> behind it\<close>

record 'v entry =
  ename :: label
  evalue :: 'v

record quantiles =
  q1 :: "jsnum option"
  median :: "jsnum option"
  q3 :: "jsnum option"

record ColumnStats =
  histogram :: "nat entry list option"
  topValues :: "count entry list option"
  smin :: "jsnum option"
  smax :: "jsnum option"
  mean :: "jsnum option"
  quants :: "quantiles option"

record ColumnInfo =
  name :: jstring
  ctype :: coltype
  missing :: int
  unique :: nat
  example :: "jstring option"
  stats :: ColumnStats

record DatasetSummary =
  rowCount :: nat
  columns :: "ColumnInfo list"
  preview :: "(jstring \<times> jstring option) list list"
  fileName :: jstring

definition emptyStats :: ColumnStats where
  "emptyStats = \<lparr>histogram = None, topValues = None, smin = None, smax = None,
     mean = None, quants = None\<rparr>"

subsection \<open>Structural integrity\<close>

definition malformedRows :: "code_unit \<Rightarrow> nat \<Rightarrow> jstring list \<Rightarrow> nat \<Rightarrow> nat" where
  \<comment> \<open>The loop \<open>for (i = 1; i < validationLimit; i++)\<close> and its counter.\<close>
  "malformedRows d expectedColumnCount lines validationLimit =
     length (filter (\<lambda>i. length (splitLine d (lines ! i)) \<noteq> expectedColumnCount)
       [1..<validationLimit])"

definition tooManyMalformed :: "nat \<Rightarrow> nat \<Rightarrow> bool" where
  \<comment> \<open>\<open>malformedCount > (validationLimit * 0.2)\<close>, \<open>0.2\<close> being the binary64 value nearest to 1/5.\<close>
  "tooManyMalformed malformedCount validationLimit \<longleftrightarrow>
     fless (fmul (num validationLimit) (fl64 (1 / 5))) (num malformedCount)"

subsection \<open>Objects\<close>

text \<open>
  An object made by \<^verbatim>\<open>{}\<close> is kept as the list of its own properties, in the order in which
  they were created. It inherits the properties of \<open>Object.prototype\<close>: the methods
  \<open>inheritedMethods\<close> and the accessor \<open>__proto__\<close>, whose setter ignores a value that is
  no object. The values that the program stores are strings, numbers and \<open>undefined\<close>.
\<close>

definition inheritedMethods :: "jstring list" where
  "inheritedMethods = map js [''constructor'', ''hasOwnProperty'', ''isPrototypeOf'',
     ''propertyIsEnumerable'', ''toLocaleString'', ''toString'', ''valueOf'',
     ''__defineGetter__'', ''__defineSetter__'', ''__lookupGetter__'', ''__lookupSetter__'']"

fun putProp :: "jstring \<Rightarrow> 'v \<Rightarrow> (jstring \<times> 'v) list \<Rightarrow> (jstring \<times> 'v) list" where
  \<comment> \<open>A key that is there keeps its place, a new key goes behind the others.\<close>
  "putProp k v [] = [(k, v)]"
| "putProp k v (p # rest) = (if fst p = k then (k, v) # rest else p # putProp k v rest)"

definition setProp :: "jstring \<Rightarrow> 'v \<Rightarrow> (jstring \<times> 'v) list \<Rightarrow> (jstring \<times> 'v) list" where
  \<comment> \<open>\<open>obj[k] = v\<close>; with the key \<open>__proto__\<close> the inherited setter runs and the object
      gets no property.\<close>
  "setProp k v obj = (if k = js ''__proto__'' then obj else putProp k v obj)"

definition isArrayIndex :: "jstring \<Rightarrow> bool" where
  \<comment> \<open>A key that is the decimal form of an integer up to \<open>2^32 - 2\<close>.\<close>
  "isArrayIndex k \<longleftrightarrow> k \<noteq> [] \<and> list_all isDigit k \<and> (hd k \<noteq> 48 \<or> length k = 1)
     \<and> radixVal 10 k \<le> 4294967294"

definition objectEntries :: "(jstring \<times> 'v) list \<Rightarrow> (jstring \<times> 'v) list" where
  \<comment> \<open>\<open>Object.entries\<close>, the order of every enumeration of the own properties: the integer
      keys ascending, then the others as they were created.\<close>
  "objectEntries obj =
     sort_key (\<lambda>p. radixVal 10 (fst p)) (filter (\<lambda>p. isArrayIndex (fst p)) obj)
     @ filter (\<lambda>p. \<not> isArrayIndex (fst p)) obj"

subsection \<open>Preview and sample\<close>

definition previewRow :: "jstring list \<Rightarrow> jstring list \<Rightarrow> (jstring \<times> jstring option) list" where
  \<comment> \<open>\<open>headers.forEach((h, i) => { row[h] = values[i] })\<close>; \<open>None\<close> is \<open>undefined\<close>. The row
      is given by its properties as they are enumerated.\<close>
  "previewRow headers values =
     objectEntries
       (fold (\<lambda>i row. setProp (headers ! i) (nth_opt values i) row) [0..<length headers] [])"

definition pushValue :: "(nat \<rightharpoonup> jstring list) \<Rightarrow> nat \<Rightarrow> jstring \<Rightarrow> (nat \<rightharpoonup> jstring list)" where
  "pushValue columnValues index val =
     columnValues(index \<mapsto> (case columnValues index of None \<Rightarrow> [] | Some vs \<Rightarrow> vs) @ [val])"

definition collectRow :: "nat \<Rightarrow> jstring list \<Rightarrow> (nat \<rightharpoonup> jstring list) \<Rightarrow> (nat \<rightharpoonup> jstring list)" where
  "collectRow ncols rowValues columnValues =
     fold (\<lambda>index cv. case nth_opt rowValues index of
                         None \<Rightarrow> cv
                       | Some val \<Rightarrow> if val \<noteq> [] then pushValue cv index val else cv)
       [0..<ncols] columnValues"

definition collectValues :: "code_unit \<Rightarrow> nat \<Rightarrow> jstring list \<Rightarrow> (nat \<rightharpoonup> jstring list)" where
  "collectValues d ncols sampleLines =
     fold (\<lambda>line. collectRow ncols (splitLine d line)) sampleLines Map.empty"

subsection \<open>Type and statistics of a column\<close>

record tally =
  numericCount :: nat
  dateCount :: nat
  numericParsed :: "jsnum list"
  dateParsed :: "jsnum list"

definition scanValue :: "(jstring \<Rightarrow> int option) \<Rightarrow> jstring \<Rightarrow> tally \<Rightarrow> tally" where
  \<comment> \<open>The body of \<open>rawValues.forEach\<close>; \<open>Date_parse\<close> is the host's \<open>Date.parse\<close>, \<open>None\<close> its NaN.\<close>
  "scanValue Date_parse v t =
     (let n = StringToNumber v;
          t1 = (if n \<noteq> NaN \<and> v \<noteq> []
                then t\<lparr>numericCount := numericCount t + 1, numericParsed := numericParsed t @ [n]\<rparr>
                else t)
      in if length v > 5 \<and> \<not> (StringToNumber v \<noteq> NaN)
         then (case Date_parse v of
                 None \<Rightarrow> t1
               | Some d \<Rightarrow> t1\<lparr>dateCount := dateCount t1 + 1,
                                dateParsed := dateParsed t1 @ [Fin (of_int d)]\<rparr>)
         else t1)"

definition scanValues :: "(jstring \<Rightarrow> int option) \<Rightarrow> jstring list \<Rightarrow> tally" where
  "scanValues Date_parse rawValues =
     fold (scanValue Date_parse) rawValues
       \<lparr>numericCount = 0, dateCount = 0, numericParsed = [], dateParsed = []\<rparr>"

definition isNumericCol :: "nat \<Rightarrow> nat \<Rightarrow> bool" where
  \<comment> \<open>\<open>rawValues.length > 0 && (numericCount / rawValues.length) > 0.8\<close>\<close>
  "isNumericCol numCount len \<longleftrightarrow> len > 0 \<and> fless (fl64 (4 / 5)) (fdiv (num numCount) (num len))"

definition isDateCol :: "bool \<Rightarrow> nat \<Rightarrow> nat \<Rightarrow> bool" where
  \<comment> \<open>\<open>!isNumeric && rawValues.length > 0 && (dateCount / rawValues.length) > 0.6\<close>\<close>
  "isDateCol isNumeric datCount len \<longleftrightarrow>
     \<not> isNumeric \<and> len > 0 \<and> fless (fl64 (3 / 5)) (fdiv (num datCount) (num len))"

definition histogramOf ::
  "(jsnum \<Rightarrow> label) \<Rightarrow> (jsnum \<Rightarrow> label) \<Rightarrow> jsnum list \<Rightarrow> jsnum \<Rightarrow> jsnum \<Rightarrow> nat entry list" where
  \<comment> \<open>The histogram of the numeric and of the date branch; they differ in the labels only.\<close>
  "histogramOf binLabel oneLabel vals minv maxv =
     (let step = fdiv (fsub maxv minv) (num 10) in
      if fless (Fin 0) step then
        map (\<lambda>i. let rangeStart = fadd minv (fmul (num i) step);
                     rangeEnd = fadd minv (fmul (num (i + 1)) step);
                     count = length (filter (\<lambda>n. fle rangeStart n \<and>
                               (if i = 10 - 1 then fle n rangeEnd else fless n rangeEnd)) vals)
                 in \<lparr>ename = binLabel rangeStart, evalue = count\<rparr>) [0..<10]
      else [\<lparr>ename = oneLabel minv, evalue = length vals\<rparr>])"

definition numericStats :: "jsnum list \<Rightarrow> ColumnStats" where
  "numericStats parsed =
     (let minv = Math_min parsed; maxv = Math_max parsed;
          meanv = fdiv (foldl fadd (Fin 0) parsed) (num (length parsed));
          sorted = sortNumbers parsed;
          n = num (length sorted)
      in \<lparr>histogram = Some (histogramOf ToFixed1 NumToString sorted minv maxv),
          topValues = None, smin = Some minv, smax = Some maxv, mean = Some meanv,
          quants = Some \<lparr>q1 = index_at sorted (Math_floor (fmul n (fl64 (1 / 4)))),
                         median = index_at sorted (Math_floor (fmul n (fl64 (1 / 2)))),
                         q3 = index_at sorted (Math_floor (fmul n (fl64 (3 / 4))))\<rparr>\<rparr>)"

definition dateStats :: "jsnum list \<Rightarrow> ColumnStats" where
  "dateStats parsed =
     (let minv = Math_min parsed; maxv = Math_max parsed
      in \<lparr>histogram = Some (histogramOf IsoDay IsoDay parsed minv maxv),
          topValues = None, smin = Some minv, smax = Some maxv, mean = None, quants = None\<rparr>)"

definition bumpCount :: "jstring \<Rightarrow> (jstring \<times> count) list \<Rightarrow> (jstring \<times> count) list" where
  \<comment> \<open>\<open>counts[v] = (counts[v] || 0) + 1\<close>. Where \<open>v\<close> is no property of \<open>counts\<close> yet and
      names an inherited method, \<open>counts[v]\<close> is that function and the sum is a string, to
      which the next sums append. With \<open>__proto__\<close> the sum is a string as well, and the
      assignment leaves \<open>counts\<close> as it is.\<close>
  "bumpCount v counts =
     setProp v (case map_of counts v of
                  Some (Count n) \<Rightarrow> Count (n + 1)
                | Some (Appended k n) \<Rightarrow> Appended k (n + 1)
                | None \<Rightarrow> if v \<in> set inheritedMethods then Appended v 1 else Count 1) counts"

fun positiveDifference :: "count \<Rightarrow> count \<Rightarrow> bool" where
  \<comment> \<open>\<open>b - a > 0\<close>; the difference is NaN when \<open>a\<close> or \<open>b\<close> is such a string.\<close>
  "positiveDifference (Count b) (Count a) = (a < b)"
| "positiveDifference b a = False"

definition stringStats :: "jstring list \<Rightarrow> ColumnStats" where
  \<comment> \<open>With a string among the counts the comparator does not order the entries
      consistently, and the order of the result is the one the host's sort gives; here it is
      the order of the insertion sort.\<close>
  "stringStats rawValues =
     (let counts = fold bumpCount rawValues [];
          top = take 20 (sortBy (\<lambda>a b. positiveDifference (snd b) (snd a)) (objectEntries counts))
      in emptyStats\<lparr>topValues := Some (map (\<lambda>p. \<lparr>ename = Text (if length (fst p) > 15
                                       then take 15 (fst p) @ js ''...'' else fst p),
                                     evalue = snd p\<rparr>) top)\<rparr>)"

definition getcol :: "(nat \<rightharpoonup> jstring list) \<Rightarrow> nat \<Rightarrow> jstring list" where
  \<comment> \<open>\<open>columnValues[index] || []\<close>\<close>
  "getcol columnValues index = (case columnValues index of None \<Rightarrow> [] | Some vs \<Rightarrow> vs)"

definition analyzeColumn ::
  "(jstring \<Rightarrow> int option) \<Rightarrow> nat \<Rightarrow> (nat \<rightharpoonup> jstring list) \<Rightarrow> jstring \<Rightarrow> nat \<Rightarrow> ColumnInfo" where
  \<comment> \<open>The function mapped over \<open>headers\<close>.\<close>
  "analyzeColumn Date_parse sampleLimit columnValues header index =
     (let rawValues = getcol columnValues index;
          missingCount = int sampleLimit - int (length rawValues);
          t = scanValues Date_parse rawValues;
          isNumeric = isNumericCol (numericCount t) (length rawValues);
          isDate = isDateCol isNumeric (dateCount t) (length rawValues)
      in \<lparr>name = header,
          ctype = (if isNumeric then TNumeric else if isDate then TDate else TString),
          missing = missingCount,
          unique = card (set rawValues),
          example = nth_opt rawValues 0,
          stats = (if isNumeric then numericStats (numericParsed t)
                   else if isDate then dateStats (dateParsed t)
                   else stringStats rawValues)\<rparr>)"

subsection \<open>\<open>parseCSV\<close>\<close>

definition parseCSV ::
  "(jstring \<Rightarrow> int option) \<Rightarrow> jstring \<Rightarrow> jstring \<Rightarrow> error + DatasetSummary" where
  \<comment> \<open>\<open>text\<close> is the decoded content of the file, \<open>file_name\<close> its name; \<open>Inl\<close> is a rejection.\<close>
  "parseCSV Date_parse file_name text =
     (if 65533 \<in> set text then Inl EncodingError else
      let lines = nonBlankLines text in
      if length lines < 2 then Inl InsufficientData else
      let firstLine = lines ! 0;
          bestDelimiter = detectDelimiter firstLine;
          headers = splitLine bestDelimiter firstLine;
          expectedColumnCount = length headers in
      if expectedColumnCount < 1 then Inl ColumnDetection else
      let validationLimit = min (length lines) 100;
          malformedCount = malformedRows bestDelimiter expectedColumnCount lines validationLimit in
      if tooManyMalformed malformedCount validationLimit
      then Inl (DataIntegrity malformedCount validationLimit expectedColumnCount) else
      let previewLines = take 50 (drop 1 lines);
          dataLines = drop 1 lines;
          sampleLimit = min (length dataLines) 2000;
          columnValues = collectValues bestDelimiter expectedColumnCount (take sampleLimit dataLines)
      in Inr \<lparr>rowCount = length dataLines,
              columns = map (\<lambda>index. analyzeColumn Date_parse sampleLimit columnValues
                                       (headers ! index) index) [0..<length headers],
              preview = map (\<lambda>line. previewRow headers (splitLine bestDelimiter line)) previewLines,
              fileName = file_name\<rparr>)"


section \<open>The specification's notions and sample inputs\<close>

definition ColumnSample :: "jstring \<Rightarrow> nat \<Rightarrow> jstring list" where
  \<comment> \<open>The specification's \<open>ColumnSample[i]\<close>: the non-empty values of column \<open>i\<close> in the
      tokenized rows of the sample window, the first 2000 data rows.\<close>
  "ColumnSample text i =
     (let lines = nonBlankLines text; d = detectDelimiter (lines ! 0)
      in map (\<lambda>row. row ! i)
           (filter (\<lambda>row. i < length row \<and> row ! i \<noteq> [])
              (map (splitLine d) (take 2000 (drop 1 lines)))))"

definition tallyOf :: "(jstring \<Rightarrow> int option) \<Rightarrow> jstring list \<Rightarrow> tally" where
  \<comment> \<open>The counts and the parsed values of a column in closed form: the values that pass the
      numeric test, and the values that pass the date test.\<close>
  "tallyOf Date_parse vs =
     \<lparr>numericCount = length (filter (\<lambda>v. StringToNumber v \<noteq> NaN \<and> v \<noteq> []) vs),
      dateCount = length (filter (\<lambda>v. 5 < length v \<and> StringToNumber v = NaN \<and> Date_parse v \<noteq> None) vs),
      numericParsed = map StringToNumber (filter (\<lambda>v. StringToNumber v \<noteq> NaN \<and> v \<noteq> []) vs),
      dateParsed = map (\<lambda>v. Fin (of_int (the (Date_parse v))))
                     (filter (\<lambda>v. 5 < length v \<and> StringToNumber v = NaN \<and> Date_parse v \<noteq> None) vs)\<rparr>"

definition unlines :: "jstring list \<Rightarrow> jstring" where
  \<comment> \<open>The text of a file with the given lines, each ended by a line feed.\<close>
  "unlines ls = concat (map (\<lambda>l. l @ [10]) ls)"

definition noDate :: "jstring \<Rightarrow> int option" where
  \<comment> \<open>A \<open>Date.parse\<close> that parses nothing, for inputs on which it is not called.\<close>
  "noDate v = None"


section \<open>Properties of the binary64 rounding\<close>

lemma pow2_powi: "pow2 e = 2 powi e"
  by (simp add: pow2_def power_int_def inverse_eq_divide power_one_over)

lemma pow2_pos: "0 < pow2 e"
  by (simp add: pow2_powi)

lemma pow2_add: "pow2 (a + b) = pow2 a * pow2 b"
  by (simp add: pow2_powi power_int_add)

lemma pow2_neg: "pow2 (- a) = 1 / pow2 a"
  by (simp add: pow2_powi power_int_minus_divide)

lemma pow2_mono: "a \<le> b \<Longrightarrow> pow2 a \<le> pow2 b"
  by (simp add: pow2_powi power_int_increasing)

lemma pow2_less_cancel: "pow2 a < pow2 b \<Longrightarrow> a < b"
  using pow2_mono [of b a] by (cases "b \<le> a") auto

lemma pow2_of_nat: "0 \<le> k \<Longrightarrow> pow2 k = of_int (2 ^ nat k)"
  by (simp add: pow2_def)

lemma bitlen_pos: "0 < p \<Longrightarrow> 1 \<le> bitlen p"
  using bitlen_eq_zero_iff [of p] bitlen_nonneg [of p] by (cases "bitlen p = 0") auto

lemma bitlen_rat_bounds:
  assumes "0 < p"
  shows "pow2 (bitlen p - 1) \<le> of_int p" and "of_int p + 1 \<le> pow2 (bitlen p)"
proof -
  from bitlen_bounds [OF assms]
  have lo: "2 ^ nat (bitlen p - 1) \<le> p" and hi: "p + 1 \<le> 2 ^ nat (bitlen p)"
    by auto
  have b1: "1 \<le> bitlen p" by (rule bitlen_pos [OF assms])
  have "pow2 (bitlen p - 1) = of_int (2 ^ nat (bitlen p - 1))"
    using b1 by (simp add: pow2_of_nat)
  also have "\<dots> \<le> of_int p" using lo by (simp only: of_int_le_iff)
  finally show "pow2 (bitlen p - 1) \<le> of_int p" .
  have "(of_int p :: rat) + 1 = of_int (p + 1)" by simp
  also have "\<dots> \<le> of_int (2 ^ nat (bitlen p))" using hi by (simp only: of_int_le_iff)
  also have "\<dots> = pow2 (bitlen p)" using b1 by (simp add: pow2_of_nat)
  finally show "of_int p + 1 \<le> pow2 (bitlen p)" .
qed

lemma ilog2_bounds:
  assumes "0 < a"
  shows "pow2 (ilog2 a) \<le> a" and "a < pow2 (ilog2 a + 1)"
proof -
  have "pow2 (ilog2 a) \<le> a \<and> a < pow2 (ilog2 a + 1)"
  proof (cases "1 \<le> a")
    case True
    then have n: "0 < \<lfloor>a\<rfloor>" by linarith
    have il: "ilog2 a = bitlen \<lfloor>a\<rfloor> - 1" using True by (simp add: ilog2_def)
    have "pow2 (bitlen \<lfloor>a\<rfloor> - 1) \<le> of_int \<lfloor>a\<rfloor>" by (rule bitlen_rat_bounds(1) [OF n])
    also have "\<dots> \<le> a" by linarith
    finally have lo: "pow2 (ilog2 a) \<le> a" by (simp add: il)
    have "a < of_int \<lfloor>a\<rfloor> + 1" by linarith
    also have "\<dots> \<le> pow2 (bitlen \<lfloor>a\<rfloor>)" by (rule bitlen_rat_bounds(2) [OF n])
    finally have "a < pow2 (ilog2 a + 1)" by (simp add: il)
    with lo show ?thesis ..
  next
    case False
    define c where "c = \<lceil>1 / a\<rceil>"
    have b: "1 < 1 / a" using False assms by simp
    then have c2: "0 < c - 1" unfolding c_def by linarith
    have il: "ilog2 a = - bitlen (c - 1)" using False by (simp add: ilog2_def c_def)
    have "1 / a \<le> of_int (c - 1) + 1" unfolding c_def by simp
    also have "\<dots> \<le> pow2 (bitlen (c - 1))" by (rule bitlen_rat_bounds(2) [OF c2])
    finally have "1 / pow2 (bitlen (c - 1)) \<le> a"
      using assms pow2_pos [of "bitlen (c - 1)"] by (simp add: field_simps)
    then have lo: "pow2 (ilog2 a) \<le> a" by (simp add: il pow2_neg)
    have "pow2 (bitlen (c - 1) - 1) \<le> of_int (c - 1)" by (rule bitlen_rat_bounds(1) [OF c2])
    also have "\<dots> < 1 / a" unfolding c_def by linarith
    finally have "a < 1 / pow2 (bitlen (c - 1) - 1)"
      using assms pow2_pos [of "bitlen (c - 1) - 1"] by (simp add: field_simps)
    also have "\<dots> = pow2 (- bitlen (c - 1) + 1)"
      using pow2_neg [of "bitlen (c - 1) - 1"] by simp
    finally have "a < pow2 (ilog2 a + 1)" by (simp add: il)
    with lo show ?thesis ..
  qed
  then show "pow2 (ilog2 a) \<le> a" and "a < pow2 (ilog2 a + 1)" by auto
qed

lemma rhe_err: "\<bar>of_int (round_half_even x) - x\<bar> \<le> 1 / 2"
proof -
  have "of_int \<lfloor>x\<rfloor> \<le> x" "x < of_int \<lfloor>x\<rfloor> + 1" by linarith+
  then show ?thesis by (auto simp: round_half_even_def Let_def)
qed

lemma rhe_of_int: "round_half_even (of_int z) = z"
  by (simp add: round_half_even_def)

lemma quantum_le:
  assumes "0 < x" and "x < pow2 (e + 53)" and "- 1074 \<le> e"
  shows "quantum x \<le> e"
proof -
  have "pow2 (ilog2 x) \<le> x" by (rule ilog2_bounds(1) [OF assms(1)])
  with assms(2) have "pow2 (ilog2 x) < pow2 (e + 53)" by simp
  then have "ilog2 x < e + 53" by (rule pow2_less_cancel)
  with assms(3) show ?thesis by (simp add: quantum_def)
qed

lemma fl64_unit:
  assumes "0 \<le> x" and "x \<le> 1"
  shows "\<exists>r. fl64 x = Fin r \<and> \<bar>r - x\<bar> \<le> 1 / 2 ^ 53"
proof (cases "x = 0")
  case True
  then show ?thesis by (simp add: fl64_def)
next
  case False
  with assms have pos: "0 < x" by simp
  define q where "q = quantum x"
  define m where "m = round_half_even (x / pow2 q)"
  have "x < pow2 (- 52 + 53)" using assms by (simp add: pow2_def)
  with pos have q52: "q \<le> - 52" unfolding q_def by (intro quantum_le) auto
  have fl: "fl64 x = Fin (of_int m * pow2 q)"
    using pos q52 by (simp add: fl64_def pack_def q_def [symmetric] m_def [symmetric])
  have "of_int m * pow2 q - x = (of_int m - x / pow2 q) * pow2 q"
    using pow2_pos [of q] by (simp add: left_diff_distrib)
  then have "\<bar>of_int m * pow2 q - x\<bar> = \<bar>of_int m - x / pow2 q\<bar> * pow2 q"
    using pow2_pos [of q] by (simp add: abs_mult)
  also have "\<dots> \<le> (1 / 2) * pow2 q"
    using rhe_err [of "x / pow2 q"] pow2_pos [of q] unfolding m_def by (intro mult_right_mono) auto
  also have "\<dots> \<le> (1 / 2) * pow2 (- 52)" using pow2_mono [OF q52] by simp
  also have "\<dots> = 1 / 2 ^ 53" by (simp add: pow2_def)
  finally show ?thesis using fl by blast
qed

text \<open>A rational \<open>k * 2^e\<close> with \<open>k < 2^53\<close> in the exponent range is a binary64 value.\<close>

lemma fl64_exact:
  assumes k: "0 < k" "k < 2 ^ 53" and e: "- 1074 \<le> e" "e \<le> 971"
  shows "fl64 (of_int k * pow2 e) = Fin (of_int k * pow2 e)"
proof -
  define x where "x = of_int k * pow2 e"
  define q where "q = quantum x"
  have pos: "0 < x" using k pow2_pos [of e] by (simp add: x_def)
  have "of_int k < (of_int (2 ^ 53) :: rat)" using k(2) by (simp only: of_int_less_iff)
  then have "x < pow2 53 * pow2 e"
    using pow2_pos [of e] by (simp add: x_def pow2_def)
  then have "x < pow2 (e + 53)" by (simp add: pow2_add mult.commute)
  with pos e have qe: "q \<le> e" unfolding q_def by (intro quantum_le) auto
  have "pow2 e = pow2 (e - q) * pow2 q" by (simp add: pow2_add [symmetric])
  then have "x / pow2 q = of_int k * pow2 (e - q)"
    using pow2_pos [of q] by (simp add: x_def)
  also have "\<dots> = of_int (k * 2 ^ nat (e - q))" using qe by (simp add: pow2_of_nat)
  finally have m: "round_half_even (x / pow2 q) = k * 2 ^ nat (e - q)"
    by (simp only: rhe_of_int)
  have restore: "of_int (k * 2 ^ nat (e - q)) * pow2 q = x"
  proof -
    have "of_int (k * 2 ^ nat (e - q)) * pow2 q = of_int k * (pow2 (e - q) * pow2 q)"
      using qe by (simp add: pow2_of_nat)
    then show ?thesis by (simp add: pow2_add [symmetric] x_def)
  qed
  have noov: "\<not> (971 < q \<or> (q = 971 \<and> 2 ^ 53 \<le> k * 2 ^ nat (e - q)))"
    using qe e k by auto
  have "fl64 x = Fin (of_int (k * 2 ^ nat (e - q)) * pow2 q)"
    using pos noov by (simp add: fl64_def pack_def q_def [symmetric] m)
  then show ?thesis by (simp only: restore x_def)
qed


subsection \<open>Evaluation on numerals\<close>

lemma floor_numeral_div: "\<lfloor>numeral a / numeral b :: rat\<rfloor> = numeral a div numeral b"
  using floor_divide_of_int_eq [of "numeral a" "numeral b", where ?'a = rat] by simp

lemma ceiling_numeral_div: "\<lceil>numeral a / numeral b :: rat\<rceil> = - (- numeral a div numeral b)"
  using ceiling_divide_eq_div [of "numeral a" "numeral b", where ?'a = rat] by simp

lemma floor_one_div: "\<lfloor>1 / numeral b :: rat\<rfloor> = 1 div numeral b"
  using floor_divide_of_int_eq [of 1 "numeral b", where ?'a = rat] by simp

lemma ceiling_one_div: "\<lceil>1 / numeral b :: rat\<rceil> = - (- 1 div numeral b)"
  using ceiling_divide_eq_div [of 1 "numeral b", where ?'a = rat] by simp

lemma bitlen_One: "bitlen 1 = 1"
  by (subst compute_bitlen) simp

lemma bitlen_Bit0: "bitlen (numeral (Num.Bit0 n)) = bitlen (numeral n) + 1"
  by (subst compute_bitlen) simp

lemma bitlen_Bit1: "bitlen (numeral (Num.Bit1 n)) = bitlen (numeral n) + 1"
  by (subst compute_bitlen) simp

lemmas fl_eval = fl64_def quantum_def pack_def ilog2_def round_half_even_def pow2_def num_def
  bitlen_One bitlen_Bit0 bitlen_Bit1
  floor_numeral_div ceiling_numeral_div floor_one_div ceiling_one_div


section \<open>Properties of the tokenizer\<close>

lemma la_parity:
  "la_outside cs = even (count_list cs 34) \<and> la_inside cs = odd (count_list cs 34)"
  by (induction cs) auto

lemma split_regex_nonempty: "split_regex d cur s \<noteq> []"
  by (induction s arbitrary: cur) auto

lemma splitLine_nonempty: "1 \<le> length (splitLine d line)"
  using split_regex_nonempty [of d "[]" line]
  by (cases "split_regex d [] line") (auto simp: splitLine_def)


lemma split_regex_cur:
  "split_regex d cur s = (cur @ hd (split_regex d [] s)) # tl (split_regex d [] s)"
proof (induction s arbitrary: cur)
  case Nil
  show ?case by simp
next
  case (Cons c cs)
  show ?case
  proof (cases "c = d \<and> la_outside cs")
    case True
    then show ?thesis by simp
  next
    case False
    then have "split_regex d cur (c # cs) = split_regex d (cur @ [c]) cs" by auto
    also have "\<dots> = ((cur @ [c]) @ hd (split_regex d [] cs)) # tl (split_regex d [] cs)"
      by (rule Cons.IH)
    also have "\<dots> = (cur @ hd (split_regex d [c] cs)) # tl (split_regex d [c] cs)"
      by (subst (2 3) Cons.IH) simp
    finally show ?thesis using False by auto
  qed
qed

lemma la_outside_append:
  "even (count_list ys 34) \<Longrightarrow> la_outside (xs @ ys) = la_outside xs"
  by (simp add: la_parity)

lemma split_regex_append:
  assumes "even (count_list ys 34)"
  shows "split_regex d cur (xs @ ys) =
    butlast (split_regex d cur xs)
      @ [last (split_regex d cur xs) @ hd (split_regex d [] ys)] @ tl (split_regex d [] ys)"
proof (induction xs arbitrary: cur)
  case Nil
  show ?case using split_regex_cur [of d cur ys] by simp
next
  case (Cons c cs)
  show ?case
    using Cons.IH assms by (simp add: la_outside_append split_regex_nonempty)
qed

lemma split_regex_quoted:
  assumes "d \<noteq> 34" and "even (count_list post 34)"
  shows "34 \<notin> set mid \<Longrightarrow>
    split_regex d cur (mid @ 34 # post) = split_regex d (cur @ mid @ [34]) post"
proof (induction mid arbitrary: cur)
  case Nil
  show ?case using assms(1) by simp
next
  case (Cons c cs)
  then have "count_list cs 34 = 0" by (simp add: count_list_0_iff)
  then have "\<not> la_outside (cs @ 34 # post)" using assms(2) by (simp add: la_parity)
  then show ?case using Cons by simp
qed

lemma split_regex_field:
  assumes "d \<noteq> 34" and "34 \<notin> set mid" and "even (count_list post 34)"
  shows "split_regex d [] (pre @ [34] @ mid @ [34] @ post) =
    butlast (split_regex d [] pre)
      @ [last (split_regex d [] pre) @ [34] @ mid @ [34] @ hd (split_regex d [] post)]
      @ tl (split_regex d [] post)"
proof -
  have ev: "even (count_list ([34] @ mid @ [34] @ post) 34)"
    using assms(2,3) by (simp add: count_list_0_iff)
  have nd: "34 \<noteq> d" using assms(1) by simp
  have "split_regex d [] ([34] @ mid @ [34] @ post) = split_regex d [34] (mid @ 34 # post)"
    using nd by simp
  also have "\<dots> = split_regex d ([34] @ mid @ [34]) post"
    by (rule split_regex_quoted [OF assms(1,3,2)])
  also have "\<dots> = (([34] @ mid @ [34]) @ hd (split_regex d [] post)) # tl (split_regex d [] post)"
    by (rule split_regex_cur)
  finally have q: "split_regex d [] ([34] @ mid @ [34] @ post) =
    ([34] @ mid @ [34] @ hd (split_regex d [] post)) # tl (split_regex d [] post)" by simp
  have "split_regex d [] (pre @ ([34] @ mid @ [34] @ post)) =
    butlast (split_regex d [] pre)
      @ [last (split_regex d [] pre) @ hd (split_regex d [] ([34] @ mid @ [34] @ post))]
      @ tl (split_regex d [] ([34] @ mid @ [34] @ post))"
    by (rule split_regex_append [OF ev])
  then have "split_regex d [] (pre @ ([34] @ mid @ [34] @ post)) =
    butlast (split_regex d [] pre)
      @ [last (split_regex d [] pre)
          @ hd (([34] @ mid @ [34] @ hd (split_regex d [] post)) # tl (split_regex d [] post))]
      @ tl (([34] @ mid @ [34] @ hd (split_regex d [] post)) # tl (split_regex d [] post))"
    by (simp only: q)
  then show ?thesis by (simp only: list.sel append_assoc)
qed

text \<open>
  Claim C3, as the code has it. A delimiter enclosed in a matched pair of double quotes is
  not a separator when an even number of double quotes follows the pair in the line. Let a
  line be \<open>pre\<close>, a quote, \<open>mid\<close> without a quote, a quote, and \<open>post\<close> with an even number
  of quotes. Whatever delimiters \<open>mid\<close> holds, the split of the line is the split of \<open>pre\<close>
  and the split of \<open>post\<close>, joined by one piece that holds the quoted part whole. In
  particular the line \<^verbatim>\<open>"Smith, John",34\<close> with the comma as delimiter gives the two fields
  \<^verbatim>\<open>Smith, John\<close> and \<^verbatim>\<open>34\<close>.
\<close>

theorem quoted_delimiter_kept:
  "(\<forall>d pre mid post. d \<noteq> 34 \<and> 34 \<notin> set mid \<and> even (count_list post 34) \<longrightarrow>
      split_regex d [] (pre @ [34] @ mid @ [34] @ post) =
        butlast (split_regex d [] pre)
          @ [last (split_regex d [] pre) @ [34] @ mid @ [34] @ hd (split_regex d [] post)]
          @ tl (split_regex d [] post))
   \<and> splitLine 44 (js ''\"Smith, John\",34'') = [js ''Smith, John'', js ''34'']"
proof (intro conjI allI impI)
  fix d :: code_unit and pre mid post :: jstring
  assume "d \<noteq> 34 \<and> 34 \<notin> set mid \<and> even (count_list post 34)"
  then show "split_regex d [] (pre @ [34] @ mid @ [34] @ post) =
        butlast (split_regex d [] pre)
          @ [last (split_regex d [] pre) @ [34] @ mid @ [34] @ hd (split_regex d [] post)]
          @ tl (split_regex d [] post)"
    using split_regex_field by blast
next
  show "splitLine 44 (js ''\"Smith, John\",34'') = [js ''Smith, John'', js ''34'']"
    by (simp add: js_def splitLine_def trim_def strip_quotes_def isWhiteSpace_def)
qed

theorem quoted_delimiter_kept_witness:
  "(44::nat) \<noteq> 34 \<and> 34 \<notin> set (js ''Smith, John'') \<and> even (count_list (js '',34'') 34)
   \<and> split_regex 44 [] ([] @ [34] @ js ''Smith, John'' @ [34] @ js '',34'')
       = [[34] @ js ''Smith, John'' @ [34], js ''34'']"
proof -
  have h: "(44::nat) \<noteq> 34 \<and> 34 \<notin> set (js ''Smith, John'') \<and> even (count_list (js '',34'') 34)"
    by (simp add: js_def)
  have s: "split_regex 44 [] (js '',34'') = [[], js ''34'']"
    by (simp add: js_def)
  from quoted_delimiter_kept h
  have "split_regex 44 [] ([] @ [34] @ js ''Smith, John'' @ [34] @ js '',34'') =
        butlast (split_regex 44 [] [])
          @ [last (split_regex 44 [] []) @ [34] @ js ''Smith, John'' @ [34] @ hd (split_regex 44 [] (js '',34''))]
          @ tl (split_regex 44 [] (js '',34''))"
    by blast
  then show ?thesis using h by (simp add: s)
qed

text \<open>
  The claim as stated fails: in the line \<^verbatim>\<open>"a,b",c"\<close> the first comma is enclosed in a matched
  pair of double quotes, and the line is split there, because the number of quotes that
  follow the comma, two, is even. The fields are \<^verbatim>\<open>a\<close> and \<^verbatim>\<open>b",c\<close>.
\<close>

theorem quoted_delimiter_unbalanced_counterexample:
  "js ''\"a,b\",c\"'' = [] @ [34] @ js ''a,b'' @ [34] @ js '',c\"''
   \<and> 34 \<notin> set (js ''a,b'')
   \<and> split_regex 44 [] (js ''\"a,b\",c\"'') = [js ''\"a'', js ''b\",c\"'']
   \<and> splitLine 44 (js ''\"a,b\",c\"'') = [js ''a'', js ''b\",c'']"
  by (simp add: js_def splitLine_def trim_def strip_quotes_def isWhiteSpace_def)

text \<open>
  Claim C10. Tokenizing any line yields at least one field, so the header's field count is at
  least 1 and \<open>parseCSV\<close> never fails with the error "Could not detect columns".
\<close>

theorem no_column_detection_error:
  "1 \<le> length (splitLine d line) \<and> parseCSV Date_parse file_name text \<noteq> Inl ColumnDetection"
  using splitLine_nonempty [of "detectDelimiter (nonBlankLines text ! 0)" "nonBlankLines text ! 0"]
    splitLine_nonempty [of d line]
  by (auto simp: parseCSV_def Let_def)


section \<open>Properties of the delimiter detection\<close>

lemma split_char_count: "length (split_char d cur s) = Suc (count_list s d)"
  by (induction s arbitrary: cur) auto

lemma detectDelimiter_cases:
  "detectDelimiter l =
    (if count_list l 59 \<le> count_list l 44 \<and> count_list l 9 \<le> count_list l 44
        \<and> count_list l 124 \<le> count_list l 44 then 44
     else if count_list l 9 \<le> count_list l 59 \<and> count_list l 124 \<le> count_list l 59 then 59
     else if count_list l 124 \<le> count_list l 9 then 9 else 124)"
  by (auto simp: detectDelimiter_def possibleDelimiters_def detectStep_def split_char_count Let_def)

text \<open>
  Claim C8, as the code has it. The detector selects a candidate with the highest naive
  occurrence count in the first line. Among candidates that tie for the highest count the
  earliest in the order comma, semicolon, tab, bar is selected: every candidate before the
  selected one occurs strictly less often. So the comma is selected when all counts are zero.
\<close>

theorem detectDelimiter_highest_earliest:
  "detectDelimiter l \<in> set possibleDelimiters
   \<and> (\<forall>d \<in> set possibleDelimiters. count_list l d \<le> count_list l (detectDelimiter l))
   \<and> (detectDelimiter l = 59 \<longrightarrow> count_list l 44 < count_list l 59)
   \<and> (detectDelimiter l = 9 \<longrightarrow> count_list l 44 < count_list l 9 \<and> count_list l 59 < count_list l 9)
   \<and> (detectDelimiter l = 124 \<longrightarrow> count_list l 44 < count_list l 124
         \<and> count_list l 59 < count_list l 124 \<and> count_list l 9 < count_list l 124)
   \<and> ((\<forall>d \<in> set possibleDelimiters. count_list l d = 0) \<longrightarrow> detectDelimiter l = 44)"
  by (auto simp: detectDelimiter_cases possibleDelimiters_def)

theorem detectDelimiter_highest_earliest_witness:
  "detectDelimiter (js ''a;b;c|d'') = 59
   \<and> count_list (js ''a;b;c|d'') 44 < count_list (js ''a;b;c|d'') 59
   \<and> count_list (js ''a;b;c|d'') 124 \<le> count_list (js ''a;b;c|d'') 59"
proof -
  have d: "detectDelimiter (js ''a;b;c|d'') = 59"
    by (simp add: detectDelimiter_cases js_def)
  have m: "124 \<in> set possibleDelimiters" by (simp add: possibleDelimiters_def)
  from detectDelimiter_highest_earliest [of "js ''a;b;c|d''"] d m show ?thesis by auto
qed

text \<open>
  The claim as stated fails: in \<^verbatim>\<open>a;b|c\<close> the semicolon and the bar tie for the highest
  count, and the semicolon is selected, not the comma.
\<close>

theorem detectDelimiter_tie_counterexample:
  "count_list (js ''a;b|c'') 44 = 0 \<and> count_list (js ''a;b|c'') 59 = 1
   \<and> count_list (js ''a;b|c'') 9 = 0 \<and> count_list (js ''a;b|c'') 124 = 1
   \<and> detectDelimiter (js ''a;b|c'') = 59"
  by (simp add: detectDelimiter_cases js_def)

section \<open>Properties of the structural integrity check\<close>

lemma lit_0_2: "fl64 (1 / 5) = Fin (3602879701896397 / 18014398509481984)"
  by (simp add: fl_eval)

lemma threshold_table:
  assumes "vl \<le> 100"
  shows "\<exists>r. fmul (num vl) (fl64 (1 / 5)) = Fin r \<and> \<lfloor>r\<rfloor> = int (vl div 5)"
proof -
  define ok where "ok v \<longleftrightarrow>
      (case fmul (num v) (Fin (3602879701896397 / 18014398509481984)) of
         Fin r \<Rightarrow> \<lfloor>r\<rfloor> = int (v div 5) | _ \<Rightarrow> False)" for v
  have "list_all ok [2..<101]"
    by (simp add: ok_def fl_eval)
  then have "\<forall>v \<in> {2..<101}. ok v"
    by (simp only: list_all_iff set_upt)
  moreover have "ok 0" and "ok 1" by (simp_all add: ok_def fl_eval)
  moreover from assms have "vl = 0 \<or> vl = 1 \<or> vl \<in> {2..<101}" by auto
  ultimately have "ok vl" by blast
  then show ?thesis by (auto simp: ok_def lit_0_2 split: jsnum.splits)
qed

lemma tooManyMalformed_iff:
  assumes "vl \<le> 100"
  shows "tooManyMalformed m vl \<longleftrightarrow> vl < 5 * m"
proof -
  from threshold_table [OF assms]
  obtain r where r: "fmul (num vl) (fl64 (1 / 5)) = Fin r" and f: "\<lfloor>r\<rfloor> = int (vl div 5)"
    by blast
  have "tooManyMalformed m vl \<longleftrightarrow> r < of_nat m"
    unfolding tooManyMalformed_def r by (simp add: num_def)
  also have "\<dots> \<longleftrightarrow> \<lfloor>r\<rfloor> < int m"
    using floor_less_iff [of r "int m"] by simp
  also have "\<dots> \<longleftrightarrow> vl < 5 * m" unfolding f by presburger
  finally show ?thesis .
qed

lemma upt_0_10: "[0..<10] = [0, 1, 2, 3, 4, 5, 6, 7, 8, 9]"
  by (simp add: upt_conv_Cons)

lemma upt_0_3: "[0..<3] = [0, 1, 2]"
  by (simp add: upt_conv_Cons)

lemma upt_0_1: "[0..<1] = [0]"
  by (simp add: upt_conv_Cons)


lemma parseCSV_result:
  assumes "65533 \<notin> set text" and "lines = nonBlankLines text" and "2 \<le> length lines"
    and "d = detectDelimiter (lines ! 0)" and "headers = splitLine d (lines ! 0)"
    and "vl = min (length lines) 100" and "m = malformedRows d (length headers) lines vl"
  shows "parseCSV Date_parse file_name text =
    (if vl < 5 * m then Inl (DataIntegrity m vl (length headers))
     else Inr \<lparr>rowCount = length lines - 1,
            columns = map (\<lambda>index. analyzeColumn Date_parse (min (length lines - 1) 2000)
                        (collectValues d (length headers) (take 2000 (drop 1 lines)))
                        (headers ! index) index) [0..<length headers],
            preview = map (\<lambda>line. previewRow headers (splitLine d line)) (take 50 (drop 1 lines)),
            fileName = file_name\<rparr>)"
proof -
  have h: "\<not> length headers < 1"
    using splitLine_nonempty [of d "lines ! 0"] unfolding assms(5) by linarith
  have v: "vl \<le> 100" using assms(6) by simp
  have t: "take (min (length lines - Suc 0) 2000) (drop (Suc 0) lines) = take 2000 (drop (Suc 0) lines)"
    by (simp add: min_def)
  show ?thesis
    using assms(1,3) h
    unfolding parseCSV_def assms(2) [symmetric] Let_def assms(4) [symmetric] assms(5) [symmetric]
      assms(6) [symmetric] assms(7) [symmetric] tooManyMalformed_iff [OF v]
    by (simp add: t)
qed

text \<open>
  Claim C2, as the code has it. The validator looks at the first \<open>validationLimit\<close> non-blank
  lines, at most 100 with the header among them, so it tokenizes the up to 99 rows that follow
  the header. The file is rejected with the integrity error if and only if the number of
  those rows whose field count differs from the header's exceeds 20% of \<open>validationLimit\<close>,
  the header line counted in. With 100 or more non-blank lines, 20 malformed rows are
  accepted and 21 are rejected.
\<close>

theorem integrity_threshold:
  "65533 \<notin> set text \<and> 2 \<le> length (nonBlankLines text) \<longrightarrow>
    (let lines = nonBlankLines text;
         d = detectDelimiter (lines ! 0);
         H = length (splitLine d (lines ! 0));
         validationLimit = min (length lines) 100;
         sampled = map (\<lambda>i. lines ! i) [1..<validationLimit];
         malformed = length (filter (\<lambda>row. length (splitLine d row) \<noteq> H) sampled)
     in length sampled = validationLimit - 1 \<and> length sampled \<le> 99
        \<and> (parseCSV Date_parse file_name text = Inl (DataIntegrity malformed validationLimit H)
              \<longleftrightarrow> validationLimit < 5 * malformed)
        \<and> (isl (parseCSV Date_parse file_name text) \<longleftrightarrow> validationLimit < 5 * malformed)
        \<and> (100 \<le> length lines \<longrightarrow>
              (isl (parseCSV Date_parse file_name text) \<longleftrightarrow> 21 \<le> malformed)))"
proof (intro impI)
  assume a: "65533 \<notin> set text \<and> 2 \<le> length (nonBlankLines text)"
  define lines where "lines = nonBlankLines text"
  define d where "d = detectDelimiter (lines ! 0)"
  define headers where "headers = splitLine d (lines ! 0)"
  define vl where "vl = min (length lines) 100"
  define m where "m = malformedRows d (length headers) lines vl"
  have m2: "length (filter (\<lambda>row. length (splitLine d row) \<noteq> length headers)
              (map (\<lambda>i. lines ! i) [1..<vl])) = m"
    by (simp add: m_def malformedRows_def filter_map comp_def)
  have r: "parseCSV Date_parse file_name text =
    (if vl < 5 * m then Inl (DataIntegrity m vl (length headers))
     else Inr \<lparr>rowCount = length lines - 1,
            columns = map (\<lambda>index. analyzeColumn Date_parse (min (length lines - 1) 2000)
                        (collectValues d (length headers) (take 2000 (drop 1 lines)))
                        (headers ! index) index) [0..<length headers],
            preview = map (\<lambda>line. previewRow headers (splitLine d line)) (take 50 (drop 1 lines)),
            fileName = file_name\<rparr>)"
    using a by (intro parseCSV_result) (auto simp: lines_def d_def headers_def vl_def m_def)
  have v: "vl \<le> 100" by (simp add: vl_def)
  have "length (map (\<lambda>i. lines ! i) [1..<vl]) = vl - 1 \<and> length (map (\<lambda>i. lines ! i) [1..<vl]) \<le> 99
        \<and> (parseCSV Date_parse file_name text = Inl (DataIntegrity m vl (length headers))
              \<longleftrightarrow> vl < 5 * m)
        \<and> (isl (parseCSV Date_parse file_name text) \<longleftrightarrow> vl < 5 * m)
        \<and> (100 \<le> length lines \<longrightarrow> (isl (parseCSV Date_parse file_name text) \<longleftrightarrow> 21 \<le> m))"
    using v by (auto simp: r vl_def)
  then show "let lines = nonBlankLines text;
         d = detectDelimiter (lines ! 0);
         H = length (splitLine d (lines ! 0));
         validationLimit = min (length lines) 100;
         sampled = map (\<lambda>i. lines ! i) [1..<validationLimit];
         malformed = length (filter (\<lambda>row. length (splitLine d row) \<noteq> H) sampled)
     in length sampled = validationLimit - 1 \<and> length sampled \<le> 99
        \<and> (parseCSV Date_parse file_name text = Inl (DataIntegrity malformed validationLimit H)
              \<longleftrightarrow> validationLimit < 5 * malformed)
        \<and> (isl (parseCSV Date_parse file_name text) \<longleftrightarrow> validationLimit < 5 * malformed)
        \<and> (100 \<le> length lines \<longrightarrow>
              (isl (parseCSV Date_parse file_name text) \<longleftrightarrow> 21 \<le> malformed))"
    unfolding Let_def lines_def [symmetric] d_def [symmetric] headers_def [symmetric]
      vl_def [symmetric] m2 .
qed


section \<open>Properties of the sample\<close>

lemma getcol_pushValue:
  "getcol (pushValue cv j v) i = (if i = j then getcol cv i @ [v] else getcol cv i)"
  by (simp add: getcol_def pushValue_def)

lemma getcol_collectRow:
  "getcol (collectRow n row cv) i =
     getcol cv i @ (if i < n \<and> i < length row \<and> row ! i \<noteq> [] then [row ! i] else [])"
proof (induction n)
  case 0
  show ?case by (simp add: collectRow_def)
next
  case (Suc n)
  have "collectRow (Suc n) row cv =
      (case nth_opt row n of None \<Rightarrow> collectRow n row cv
       | Some val \<Rightarrow> if val \<noteq> [] then pushValue (collectRow n row cv) n val
                     else collectRow n row cv)"
    by (simp add: collectRow_def split: option.split)
  then show ?case using Suc.IH
    by (auto simp: nth_opt_def getcol_pushValue less_Suc_eq)
qed

lemma getcol_fold_collectRow:
  "getcol (fold (\<lambda>line. collectRow n (splitLine d line)) ls cv) i =
     getcol cv i @ map (\<lambda>row. row ! i)
       (filter (\<lambda>row. i < length row \<and> row ! i \<noteq> []) (map (splitLine d) (if i < n then ls else [])))"
  by (induction ls arbitrary: cv) (auto simp: getcol_collectRow)

lemma getcol_collectValues:
  "i < n \<Longrightarrow> getcol (collectValues d n ls) i =
     map (\<lambda>row. row ! i) (filter (\<lambda>row. i < length row \<and> row ! i \<noteq> []) (map (splitLine d) ls))"
  using getcol_fold_collectRow [of n d ls Map.empty i]
  by (simp add: collectValues_def getcol_def)

lemma analyzeColumn_missing:
  "missing (analyzeColumn Date_parse sl cv h i) = int sl - int (length (getcol cv i))"
  by (simp add: analyzeColumn_def getcol_def Let_def)

lemma analyzeColumn_unique:
  "unique (analyzeColumn Date_parse sl cv h i) = card (set (getcol cv i))"
  by (simp add: analyzeColumn_def getcol_def Let_def)

lemma split_newlines_line:
  "10 \<notin> set l \<Longrightarrow> 13 \<notin> set l \<Longrightarrow>
     split_newlines cur (l @ 10 # rest) = (cur @ l) # split_newlines [] rest"
  by (induction l arbitrary: cur) auto

lemma split_newlines_unlines:
  "\<forall>l \<in> set ls. 10 \<notin> set l \<and> 13 \<notin> set l \<Longrightarrow> split_newlines [] (unlines ls) = ls @ [[]]"
  by (induction ls) (auto simp: unlines_def split_newlines_line)

lemma nonBlankLines_unlines:
  assumes "\<forall>l \<in> set ls. 10 \<notin> set l \<and> 13 \<notin> set l \<and> trim l \<noteq> []"
  shows "nonBlankLines (unlines ls) = ls"
proof -
  have "split_newlines [] (unlines ls) = ls @ [[]]"
    using assms by (intro split_newlines_unlines) auto
  moreover have "filter (\<lambda>l. trim l \<noteq> []) ls = ls" using assms by (simp add: filter_id_conv)
  ultimately show ?thesis by (simp add: nonBlankLines_def trim_def)
qed

lemma set_unlines: "set (unlines ls) = (if ls = [] then {} else insert 10 (\<Union> (set ` set ls)))"
  by (induction ls) (auto simp: unlines_def)

lemma sampled_rows:
  "n \<le> length lines \<Longrightarrow> map (\<lambda>i. lines ! i) [1..<n] = take (n - 1) (drop 1 lines)"
  by (rule nth_equalityI) (auto simp: nth_map_upt)

text \<open>
  Claim C7. For every successfully profiled file and every column \<open>i\<close>, the reported
  missing count plus the number of non-empty sampled values of column \<open>i\<close> is the size of the
  sample window, the smaller of the data row count and 2000; the reported unique count is at
  most that number of values. (The missing count is never negative.)
\<close>

theorem sample_count_invariant:
  assumes "parseCSV Date_parse file_name text = Inr s" and "i < length (columns s)"
  shows "missing (columns s ! i) + int (length (ColumnSample text i)) = int (min (rowCount s) 2000)
    \<and> unique (columns s ! i) \<le> length (ColumnSample text i)
    \<and> 0 \<le> missing (columns s ! i)"
proof -
  define lines where "lines = nonBlankLines text"
  define d where "d = detectDelimiter (lines ! 0)"
  define headers where "headers = splitLine d (lines ! 0)"
  define sl where "sl = min (length (drop 1 lines)) 2000"
  define cv where "cv = collectValues d (length headers) (take sl (drop 1 lines))"
  have s: "s = \<lparr>rowCount = length (drop 1 lines),
      columns = map (\<lambda>index. analyzeColumn Date_parse sl cv (headers ! index) index) [0..<length headers],
      preview = map (\<lambda>line. previewRow headers (splitLine d line)) (take 50 (drop 1 lines)),
      fileName = file_name\<rparr>"
    using assms(1)
    unfolding parseCSV_def lines_def [symmetric] Let_def d_def [symmetric] headers_def [symmetric]
      sl_def [symmetric] cv_def [symmetric]
    by (simp split: if_splits)
  have i: "i < length headers" using assms(2) by (simp add: s)
  have col: "columns s ! i = analyzeColumn Date_parse sl cv (headers ! i) i"
    using i by (simp add: s)
  have tk: "take sl (drop 1 lines) = take 2000 (drop 1 lines)"
    by (simp add: sl_def min_def)
  have raw: "getcol cv i = ColumnSample text i"
    using getcol_collectValues [OF i, of d "take sl (drop 1 lines)"]
    unfolding cv_def tk ColumnSample_def Let_def lines_def [symmetric] d_def [symmetric] .
  have "length (ColumnSample text i) \<le> length (take 2000 (drop 1 lines))"
    unfolding ColumnSample_def Let_def lines_def [symmetric] d_def [symmetric]
    using length_filter_le [of _ "map (splitLine d) (take 2000 (drop 1 lines))"]
    by (simp del: length_filter_le)
  then have le: "length (ColumnSample text i) \<le> sl" by (simp add: sl_def)
  have rc: "min (rowCount s) 2000 = sl" by (simp add: s sl_def)
  show ?thesis
    using le card_length [of "ColumnSample text i"]
    by (simp add: col analyzeColumn_missing analyzeColumn_unique raw rc)
qed


section \<open>Properties of the type classification\<close>

lemma fold_scanValue:
  "fold (scanValue Date_parse) vs t =
     \<lparr>numericCount = numericCount t + numericCount (tallyOf Date_parse vs),
      dateCount = dateCount t + dateCount (tallyOf Date_parse vs),
      numericParsed = numericParsed t @ numericParsed (tallyOf Date_parse vs),
      dateParsed = dateParsed t @ dateParsed (tallyOf Date_parse vs)\<rparr>"
proof (induction vs arbitrary: t)
  case Nil
  show ?case by (simp add: tallyOf_def)
next
  case (Cons v vs)
  show ?case
    by (simp add: Cons.IH) (auto simp: scanValue_def tallyOf_def Let_def split: option.splits)
qed

lemma scanValues_eq: "scanValues Date_parse vs = tallyOf Date_parse vs"
  by (simp add: scanValues_def fold_scanValue)

lemma ratio_above:
  assumes n: "0 < n" "n < 2 ^ 32" and k: "k \<le> n" and p: "p \<le> 5"
  shows "fless (fl64 (of_nat p / 5)) (fdiv (num k) (num n)) \<longleftrightarrow> p * n < 5 * k"
proof -
  define x :: rat where "x = of_nat k / of_nat n"
  define y :: rat where "y = of_nat p / 5"
  define g :: rat where "g = 1 / (5 * of_nat n)"
  define e :: rat where "e = 1 / 2 ^ 53"
  have nr: "(0::rat) < of_nat n" using n by simp
  obtain c where c: "fl64 y = Fin c" and ce: "\<bar>c - y\<bar> \<le> e"
    using fl64_unit [of y] p unfolding y_def e_def by auto
  have "(of_nat k :: rat) \<le> of_nat n" using k by (simp only: of_nat_le_iff)
  then have "x \<le> 1" "0 \<le> x" using nr by (simp_all add: x_def)
  then obtain r where r: "fl64 x = Fin r" and re: "\<bar>r - x\<bar> \<le> e"
    using fl64_unit [of x] unfolding e_def by auto
  have d: "fdiv (num k) (num n) = Fin r" using n r by (simp add: num_def x_def)
  have gap: "2 * e < g"
  proof -
    have "(of_nat n :: rat) < of_nat (2 ^ 32)" using n(2) by (simp only: of_nat_less_iff)
    then have "(1::rat) / (5 * 2 ^ 32) < 1 / (5 * of_nat n)" using nr by (simp add: field_simps)
    moreover have "2 * e < (1::rat) / (5 * 2 ^ 32)" by (simp add: e_def)
    ultimately show ?thesis by (simp only: g_def)
  qed
  have e1: "(of_nat (p * n + 1) :: rat) / (5 * of_nat n) = y + g"
    using nr by (simp add: field_simps y_def g_def)
  have e2: "(of_nat (5 * k) :: rat) / (5 * of_nat n) = x"
    using nr by (simp add: x_def)
  have e3: "(of_nat (p * n) :: rat) / (5 * of_nat n) = y"
    using nr by (simp add: y_def)
  have e4: "(of_nat (5 * k + 1) :: rat) / (5 * of_nat n) = x + g"
    using nr by (simp add: field_simps x_def g_def)
  consider (gt) "p * n < 5 * k" | (eq) "p * n = 5 * k" | (lt) "5 * k < p * n" by linarith
  then have "c < r \<longleftrightarrow> p * n < 5 * k"
  proof cases
    case gt
    then have "p * n + 1 \<le> 5 * k" by simp
    then have "(of_nat (p * n + 1) :: rat) \<le> of_nat (5 * k)" by (simp only: of_nat_le_iff)
    then have "(of_nat (p * n + 1) :: rat) / (5 * of_nat n) \<le> of_nat (5 * k) / (5 * of_nat n)"
      using nr by (intro divide_right_mono) auto
    then have "y + g \<le> x" by (simp only: e1 e2)
    with gap ce re have "c < r" by linarith
    then show ?thesis using gt by simp
  next
    case eq
    then have "(of_nat (p * n) :: rat) / (5 * of_nat n) = of_nat (5 * k) / (5 * of_nat n)"
      by (simp only:)
    then have "x = y" by (simp only: e2 e3)
    then have "r = c" using r c by simp
    then show ?thesis using eq by simp
  next
    case lt
    then have "5 * k + 1 \<le> p * n" by simp
    then have "(of_nat (5 * k + 1) :: rat) \<le> of_nat (p * n)" by (simp only: of_nat_le_iff)
    then have "(of_nat (5 * k + 1) :: rat) / (5 * of_nat n) \<le> of_nat (p * n) / (5 * of_nat n)"
      using nr by (intro divide_right_mono) auto
    then have "x + g \<le> y" by (simp only: e3 e4)
    with gap ce re have "\<not> c < r" by linarith
    then show ?thesis using lt by simp
  qed
  then show ?thesis by (simp add: c [unfolded y_def] d)
qed

lemma isNumericCol_iff:
  assumes "n < 2 ^ 32" and "k \<le> n"
  shows "isNumericCol k n \<longleftrightarrow> 0 < n \<and> 4 * n < 5 * k"
proof (cases "0 < n")
  case True
  then show ?thesis
    using ratio_above [of n k 4] assms by (simp add: isNumericCol_def)
next
  case False
  then show ?thesis by (simp add: isNumericCol_def)
qed

lemma isDateCol_iff:
  assumes "n < 2 ^ 32" and "k \<le> n"
  shows "isDateCol b k n \<longleftrightarrow> \<not> b \<and> 0 < n \<and> 3 * n < 5 * k"
proof (cases "0 < n")
  case True
  then show ?thesis
    using ratio_above [of n k 3] assms by (simp add: isDateCol_def)
next
  case False
  then show ?thesis by (simp add: isDateCol_def)
qed

lemma analyzeColumn_ctype:
  "ctype (analyzeColumn Date_parse sl cv h i) =
     (let raw = getcol cv i; t = tallyOf Date_parse raw;
          isNumeric = isNumericCol (numericCount t) (length raw)
      in if isNumeric then TNumeric
         else if isDateCol isNumeric (dateCount t) (length raw) then TDate else TString)"
  by (simp add: analyzeColumn_def Let_def scanValues_eq)

lemma analyzeColumn_stats:
  "stats (analyzeColumn Date_parse sl cv h i) =
     (let raw = getcol cv i; t = tallyOf Date_parse raw;
          isNumeric = isNumericCol (numericCount t) (length raw)
      in if isNumeric then numericStats (numericParsed t)
         else if isDateCol isNumeric (dateCount t) (length raw) then dateStats (dateParsed t)
         else stringStats raw)"
  by (simp add: analyzeColumn_def Let_def scanValues_eq)

lemma rat_ratio_less:
  "0 < n \<Longrightarrow> ((of_nat p :: rat) / 5 < of_nat k / of_nat n) = (p * n < 5 * k)"
proof -
  assume n: "0 < n"
  have "((of_nat p :: rat) / 5 < of_nat k / of_nat n) = ((of_nat (p * n) :: rat) < of_nat (5 * k))"
    using n by (simp add: field_simps)
  then show ?thesis by (simp only: of_nat_less_iff)
qed

text \<open>
  Claim C4, as the code has it. For a non-empty column sample (of non-empty values and of a
  length an array can have, as every sample is that the sampler collects) the assigned type
  is numeric when the fraction of values that parse as numbers is strictly greater than 0.8;
  otherwise date when the fraction of values longer than 5 that fail the numeric parse and
  parse as dates is strictly greater than 0.6; otherwise string. The fractions are compared
  exactly, so a fraction of exactly 0.8 or 0.6 does not qualify. A column with an empty
  sample is a string column whose statistics are not empty: they hold an empty list of top
  values, and nothing else.
\<close>

theorem column_type_rule:
  "(getcol cv i = [] \<longrightarrow>
      ctype (analyzeColumn Date_parse sl cv h i) = TString
      \<and> stats (analyzeColumn Date_parse sl cv h i) = emptyStats\<lparr>topValues := Some []\<rparr>)
   \<and> (getcol cv i \<noteq> [] \<and> [] \<notin> set (getcol cv i) \<and> length (getcol cv i) < 2 ^ 32 \<longrightarrow>
      ctype (analyzeColumn Date_parse sl cv h i) =
        (if (4 / 5 :: rat) < of_nat (length (filter (\<lambda>v. StringToNumber v \<noteq> NaN) (getcol cv i)))
                              / of_nat (length (getcol cv i))
         then TNumeric
         else if (3 / 5 :: rat) <
                   of_nat (length (filter (\<lambda>v. 5 < length v \<and> StringToNumber v = NaN
                                                  \<and> Date_parse v \<noteq> None) (getcol cv i)))
                     / of_nat (length (getcol cv i))
         then TDate else TString))
   \<and> (i < n \<and> length ls < 2 ^ 32 \<longrightarrow>
        [] \<notin> set (getcol (collectValues d n ls) i)
        \<and> length (getcol (collectValues d n ls) i) < 2 ^ 32)"
proof (intro conjI; rule impI)
  assume "i < n \<and> length ls < 2 ^ 32"
  then have i: "i < n" and l: "length ls < 2 ^ 32" by simp_all
  have "length (getcol (collectValues d n ls) i) \<le> length ls"
    using length_filter_le [of "\<lambda>row. i < length row \<and> row ! i \<noteq> []" "map (splitLine d) ls"]
    by (simp add: getcol_collectValues [OF i] del: length_filter_le)
  with l have short: "length (getcol (collectValues d n ls) i) < 2 ^ 32" by linarith
  have "[] \<notin> set (getcol (collectValues d n ls) i)"
    by (auto simp: getcol_collectValues [OF i])
  with short show "[] \<notin> set (getcol (collectValues d n ls) i)
        \<and> length (getcol (collectValues d n ls) i) < 2 ^ 32"
    by blast
next
  assume e: "getcol cv i = []"
  show "ctype (analyzeColumn Date_parse sl cv h i) = TString
      \<and> stats (analyzeColumn Date_parse sl cv h i) = emptyStats\<lparr>topValues := Some []\<rparr>"
    by (simp add: analyzeColumn_ctype analyzeColumn_stats e Let_def tallyOf_def isNumericCol_def
        isDateCol_def stringStats_def objectEntries_def sortBy_def)
next
  define raw where "raw = getcol cv i"
  define k where "k = length (filter (\<lambda>v. StringToNumber v \<noteq> NaN) raw)"
  define j where "j = length (filter (\<lambda>v. 5 < length v \<and> StringToNumber v = NaN
                                                  \<and> Date_parse v \<noteq> None) raw)"
  assume "getcol cv i \<noteq> [] \<and> [] \<notin> set (getcol cv i) \<and> length (getcol cv i) < 2 ^ 32"
  then have a: "raw \<noteq> []" "[] \<notin> set raw" "length raw < 2 ^ 32" by (simp_all add: raw_def)
  have f: "filter (\<lambda>v. StringToNumber v \<noteq> NaN \<and> v \<noteq> []) raw = filter (\<lambda>v. StringToNumber v \<noteq> NaN) raw"
    using a(2) by (intro filter_cong) auto
  have nc: "numericCount (tallyOf Date_parse raw) = k" by (simp add: tallyOf_def f k_def)
  have dc: "dateCount (tallyOf Date_parse raw) = j" by (simp add: tallyOf_def j_def)
  have kn: "k \<le> length raw" "j \<le> length raw" by (simp_all add: k_def j_def)
  have n0: "0 < length raw" using a(1) by simp
  have "ctype (analyzeColumn Date_parse sl cv h i) =
        (if 4 * length raw < 5 * k then TNumeric
         else if 3 * length raw < 5 * j then TDate else TString)"
    using n0
    by (simp add: analyzeColumn_ctype raw_def [symmetric] Let_def nc dc
        isNumericCol_iff [OF a(3) kn(1)] isDateCol_iff [OF a(3) kn(2)])
  also have "\<dots> = (if (4 / 5 :: rat) < of_nat k / of_nat (length raw) then TNumeric
         else if (3 / 5 :: rat) < of_nat j / of_nat (length raw) then TDate else TString)"
    using rat_ratio_less [OF n0, of 4 k] rat_ratio_less [OF n0, of 3 j] by simp
  finally show "ctype (analyzeColumn Date_parse sl cv h i) =
        (if (4 / 5 :: rat) < of_nat (length (filter (\<lambda>v. StringToNumber v \<noteq> NaN) (getcol cv i)))
                              / of_nat (length (getcol cv i))
         then TNumeric
         else if (3 / 5 :: rat) <
                   of_nat (length (filter (\<lambda>v. 5 < length v \<and> StringToNumber v = NaN
                                                  \<and> Date_parse v \<noteq> None) (getcol cv i)))
                     / of_nat (length (getcol cv i))
         then TDate else TString)"
    by (simp only: raw_def k_def j_def)
qed


section \<open>Properties of the numeric statistics\<close>

lemma fless_trans: "fless x y \<Longrightarrow> fless y z \<Longrightarrow> fless x z"
  by (cases x; cases y; cases z) auto

lemma fle_trans: "fle x y \<Longrightarrow> fle y z \<Longrightarrow> fle x z"
  by (auto simp: fle_def dest: fless_trans)

lemma not_fless_fle: "x \<noteq> NaN \<Longrightarrow> y \<noteq> NaN \<Longrightarrow> \<not> fless x y \<Longrightarrow> fle y x"
  by (cases x; cases y) (auto simp: fle_def)

lemma fless_fle: "fless x y \<Longrightarrow> fle x y"
  by (simp add: fle_def)

lemma fle_PInf: "fle PInf x \<Longrightarrow> x = PInf"
  by (cases x) (auto simp: fle_def)

lemma fle_NInf: "fle x NInf \<Longrightarrow> x = NInf"
  by (cases x) (auto simp: fle_def)

lemma fold_min:
  assumes "NaN \<notin> set xs" and "m \<noteq> NaN"
  shows "fold (\<lambda>x m. if x = NaN \<or> m = NaN then NaN else if fless x m then x else m) xs m \<noteq> NaN
    \<and> (fold (\<lambda>x m. if x = NaN \<or> m = NaN then NaN else if fless x m then x else m) xs m = m
        \<or> fold (\<lambda>x m. if x = NaN \<or> m = NaN then NaN else if fless x m then x else m) xs m \<in> set xs)
    \<and> fle (fold (\<lambda>x m. if x = NaN \<or> m = NaN then NaN else if fless x m then x else m) xs m) m
    \<and> (\<forall>x \<in> set xs. fle (fold (\<lambda>x m. if x = NaN \<or> m = NaN then NaN else if fless x m then x else m) xs m) x)"
  using assms
proof (induction xs arbitrary: m)
  case Nil
  then show ?case by (simp add: fle_def)
next
  case (Cons a xs)
  let ?f = "\<lambda>x m. if x = NaN \<or> m = NaN then NaN else if fless x m then x else m"
  from Cons.prems have a: "a \<noteq> NaN" "NaN \<notin> set xs" by auto
  show ?case
  proof (cases "fless a m")
    case True
    have s: "fold ?f (a # xs) m = fold ?f xs a" using True a Cons.prems(2) by simp
    from Cons.IH [OF a(2) a(1)] True show ?thesis
      unfolding s by (auto intro: fle_trans fless_fle)
  next
    case False
    have s: "fold ?f (a # xs) m = fold ?f xs m" using False a Cons.prems(2) by simp
    from Cons.IH [OF a(2) Cons.prems(2)] not_fless_fle [OF a(1) Cons.prems(2) False] show ?thesis
      unfolding s by (auto intro: fle_trans)
  qed
qed

lemma Math_min_least:
  assumes "NaN \<notin> set xs" and "xs \<noteq> []"
  shows "Math_min xs \<in> set xs \<and> (\<forall>x \<in> set xs. fle (Math_min xs) x)"
proof -
  from fold_min [OF assms(1), of PInf]
  have m: "Math_min xs = PInf \<or> Math_min xs \<in> set xs" and l: "\<forall>x \<in> set xs. fle (Math_min xs) x"
    by (auto simp: Math_min_def)
  from assms(2) obtain x where x: "x \<in> set xs" by (cases xs) auto
  show ?thesis
  proof (cases "Math_min xs = PInf")
    case True
    with l x have "x = PInf" by (auto dest: fle_PInf)
    with x True l show ?thesis by simp
  next
    case False
    with m l show ?thesis by simp
  qed
qed

lemma fold_max:
  assumes "NaN \<notin> set xs" and "m \<noteq> NaN"
  shows "fold (\<lambda>x m. if x = NaN \<or> m = NaN then NaN else if fless m x then x else m) xs m \<noteq> NaN
    \<and> (fold (\<lambda>x m. if x = NaN \<or> m = NaN then NaN else if fless m x then x else m) xs m = m
        \<or> fold (\<lambda>x m. if x = NaN \<or> m = NaN then NaN else if fless m x then x else m) xs m \<in> set xs)
    \<and> fle m (fold (\<lambda>x m. if x = NaN \<or> m = NaN then NaN else if fless m x then x else m) xs m)
    \<and> (\<forall>x \<in> set xs. fle x (fold (\<lambda>x m. if x = NaN \<or> m = NaN then NaN else if fless m x then x else m) xs m))"
  using assms
proof (induction xs arbitrary: m)
  case Nil
  then show ?case by (simp add: fle_def)
next
  case (Cons a xs)
  let ?f = "\<lambda>x m. if x = NaN \<or> m = NaN then NaN else if fless m x then x else m"
  from Cons.prems have a: "a \<noteq> NaN" "NaN \<notin> set xs" by auto
  show ?case
  proof (cases "fless m a")
    case True
    have s: "fold ?f (a # xs) m = fold ?f xs a" using True a Cons.prems(2) by simp
    from Cons.IH [OF a(2) a(1)] True show ?thesis
      unfolding s by (auto intro: fle_trans fless_fle)
  next
    case False
    have s: "fold ?f (a # xs) m = fold ?f xs m" using False a Cons.prems(2) by simp
    from Cons.IH [OF a(2) Cons.prems(2)] not_fless_fle [OF Cons.prems(2) a(1) False] show ?thesis
      unfolding s by (auto intro: fle_trans)
  qed
qed

lemma Math_max_greatest:
  assumes "NaN \<notin> set xs" and "xs \<noteq> []"
  shows "Math_max xs \<in> set xs \<and> (\<forall>x \<in> set xs. fle x (Math_max xs))"
proof -
  from fold_max [OF assms(1), of NInf]
  have m: "Math_max xs = NInf \<or> Math_max xs \<in> set xs" and l: "\<forall>x \<in> set xs. fle x (Math_max xs)"
    by (auto simp: Math_max_def)
  from assms(2) obtain x where x: "x \<in> set xs" by (cases xs) auto
  show ?thesis
  proof (cases "Math_max xs = NInf")
    case True
    with l x have "x = NInf" by (auto dest: fle_NInf)
    with x True l show ?thesis by simp
  next
    case False
    with m l show ?thesis by simp
  qed
qed

lemma rhe_ge_floor: "\<lfloor>x\<rfloor> \<le> round_half_even x"
  by (simp add: round_half_even_def Let_def)

lemma quantum_ge: "- 1074 \<le> quantum a"
  by (simp add: quantum_def)

lemma onGrid_int: "0 \<le> k \<Longrightarrow> onGrid (of_int m * pow2 (k - 1074))"
proof -
  assume k: "0 \<le> k"
  have "pow2 (k - 1074) * pow2 1074 = pow2 k" by (simp add: pow2_add [symmetric])
  also have "\<dots> = of_int (2 ^ nat k)" using k by (rule pow2_of_nat)
  finally have "of_int m * pow2 (k - 1074) * pow2 1074 = of_int (m * 2 ^ nat k)" by simp
  then show ?thesis unfolding onGrid_def by (simp only: floor_of_int)
qed

lemma onGrid_neg: "onGrid r \<Longrightarrow> onGrid (- r)"
proof -
  assume "onGrid r"
  then have "r * pow2 1074 = of_int \<lfloor>r * pow2 1074\<rfloor>" unfolding onGrid_def by (rule sym)
  then have "- r * pow2 1074 = of_int (- \<lfloor>r * pow2 1074\<rfloor>)" by simp
  then show ?thesis unfolding onGrid_def by (simp only: floor_of_int)
qed

lemma onGrid_0: "onGrid 0"
  by (simp add: onGrid_def)

lemma pack_b64: "b64 (pack neg q m)" if "- 1074 \<le> q"
proof -
  have "onGrid (of_int m * pow2 q)" using onGrid_int [of "q + 1074" m] that by simp
  moreover have "onGrid (- 1 * of_int m * pow2 q)" using onGrid_int [of "q + 1074" "- m"] that by simp
  ultimately show ?thesis by (simp add: pack_def)
qed

lemma fl64_b64: "b64 (fl64 r)"
  by (simp add: fl64_def onGrid_0 pack_b64 quantum_ge)

lemma fneg_b64: "b64 x \<Longrightarrow> b64 (fneg x)"
  by (cases x) (auto intro: onGrid_neg)

lemma StringToNumber_b64: "StringToNumber s \<noteq> NaN \<Longrightarrow> b64 (StringToNumber s)"
proof -
  have u: "unsignedDecimal t \<noteq> NaN \<Longrightarrow> b64 (unsignedDecimal t)" for t
    by (auto simp: unsignedDecimal_def Let_def fl64_b64 split: if_splits option.splits)
  have n: "fneg x \<noteq> NaN \<Longrightarrow> x \<noteq> NaN" for x by (cases x) auto
  assume "StringToNumber s \<noteq> NaN"
  then show ?thesis
    by (auto simp: StringToNumber_def Let_def onGrid_0 fl64_b64 split: if_splits option.splits
        intro!: u fneg_b64 dest: n)
qed

lemma grid_gap:
  assumes "onGrid a" and "onGrid b" and "b < a"
  shows "pow2 (- 1074) \<le> a - b"
proof -
  define ka where "ka = \<lfloor>a * pow2 1074\<rfloor>"
  define kb where "kb = \<lfloor>b * pow2 1074\<rfloor>"
  have a: "a * pow2 1074 = of_int ka"
    using assms(1) unfolding onGrid_def ka_def by (rule sym)
  have b: "b * pow2 1074 = of_int kb"
    using assms(2) unfolding onGrid_def kb_def by (rule sym)
  have "b * pow2 1074 < a * pow2 1074" using assms(3) pow2_pos [of 1074] by simp
  then have "(of_int kb :: rat) < of_int ka" by (simp only: a b)
  then have "kb + 1 \<le> ka" by simp
  then have "(of_int (kb + 1) :: rat) \<le> of_int ka" by (simp only: of_int_le_iff)
  then have "1 \<le> (a - b) * pow2 1074" by (simp add: a b left_diff_distrib)
  then have "1 / pow2 1074 \<le> a - b" using pow2_pos [of 1074] by (simp add: pos_divide_le_eq)
  then show ?thesis using pow2_neg [of 1074] by simp
qed

lemma fl64_nonpos: "d \<le> 0 \<Longrightarrow> \<not> fless (Fin 0) (fl64 d)"
proof -
  assume d: "d \<le> 0"
  have "0 \<le> round_half_even (\<bar>d\<bar> / pow2 (quantum \<bar>d\<bar>))"
  proof -
    have "0 \<le> \<bar>d\<bar> / pow2 (quantum \<bar>d\<bar>)" using pow2_pos [of "quantum \<bar>d\<bar>"] by simp
    then have "0 \<le> \<lfloor>\<bar>d\<bar> / pow2 (quantum \<bar>d\<bar>)\<rfloor>" by simp
    then show ?thesis using rhe_ge_floor [of "\<bar>d\<bar> / pow2 (quantum \<bar>d\<bar>)"] by linarith
  qed
  then have "0 \<le> (of_int (round_half_even (\<bar>d\<bar> / pow2 (quantum \<bar>d\<bar>))) :: rat) * pow2 (quantum \<bar>d\<bar>)"
    using pow2_pos [of "quantum \<bar>d\<bar>"] by simp
  then show ?thesis using d by (auto simp: fl64_def pack_def)
qed

lemma fl64_pos:
  assumes "pow2 (- 1074) \<le> d"
  shows "fless (Fin 0) (fl64 d)"
proof -
  have pos: "0 < d" using assms pow2_pos [of "- 1074"] by linarith
  define q where "q = quantum d"
  have "pow2 q \<le> d"
  proof (cases "q = - 1074")
    case True
    then show ?thesis using assms by simp
  next
    case False
    then have "q = ilog2 d - 52" by (auto simp: q_def quantum_def max_def split: if_splits)
    then have "pow2 q \<le> pow2 (ilog2 d)" by (intro pow2_mono) simp
    also have "\<dots> \<le> d" by (rule ilog2_bounds(1) [OF pos])
    finally show ?thesis .
  qed
  then have "1 \<le> d / pow2 q" using pow2_pos [of q] by (simp add: pos_le_divide_eq)
  then have "1 \<le> \<lfloor>d / pow2 q\<rfloor>" by simp
  then have "1 \<le> round_half_even (d / pow2 q)" using rhe_ge_floor [of "d / pow2 q"] by linarith
  then have "0 < (of_int (round_half_even (d / pow2 q)) :: rat) * pow2 q"
    using pow2_pos [of q] by simp
  then show ?thesis using pos by (auto simp: fl64_def pack_def q_def)
qed

lemma compare_numbers:
  assumes "b64 x" and "b64 y"
  shows "fless (Fin 0) (fsub x y) \<longleftrightarrow> fless y x"
proof (cases x; cases y)
  fix a b assume xy: "x = Fin a" "y = Fin b"
  with assms have g: "onGrid a" "onGrid b" by simp_all
  show ?thesis
  proof (cases "b < a")
    case True
    then show ?thesis using fl64_pos [OF grid_gap [OF g True]] by (simp add: xy fsub_def)
  next
    case False
    then show ?thesis using fl64_nonpos [of "a - b"] by (simp add: xy fsub_def)
  qed
qed (use assms in \<open>auto simp: fsub_def\<close>)

lemma count_insertBy: "count_list (insertBy after x ys) z = count_list (x # ys) z"
  by (induction ys) auto

lemma count_sortBy: "count_list (sortBy after xs) z = count_list xs z"
  by (induction xs) (auto simp: sortBy_def count_insertBy)

lemma set_insertBy: "set (insertBy after x ys) = insert x (set ys)"
  by (induction ys) auto

lemma length_insertBy: "length (insertBy after x ys) = Suc (length ys)"
  by (induction ys) auto

lemma length_sortBy: "length (sortBy after xs) = length xs"
  by (induction xs) (auto simp: sortBy_def length_insertBy)

lemma set_sortBy: "set (sortBy after xs) = set xs"
  by (induction xs) (auto simp: sortBy_def set_insertBy)

lemma b64_not_NaN: "b64 x \<Longrightarrow> x \<noteq> NaN"
  by (cases x) auto

lemma sorted_insertBy:
  assumes "b64 x" and "\<forall>y \<in> set ys. b64 y" and "sorted_wrt fle ys"
  shows "sorted_wrt fle (insertBy (\<lambda>a b. fless (Fin 0) (fsub a b)) x ys)"
  using assms(2,3)
proof (induction ys)
  case Nil
  show ?case by simp
next
  case (Cons y ys)
  from Cons.prems have y: "b64 y" and ys: "\<forall>z \<in> set ys. b64 z"
    and le: "\<forall>z \<in> set ys. fle y z" and so: "sorted_wrt fle ys" by auto
  show ?case
  proof (cases "fless y x")
    case True
    then have "fle y x" by (rule fless_fle)
    with le Cons.IH [OF ys so] True show ?thesis
      by (simp add: compare_numbers [OF assms(1) y] set_insertBy)
  next
    case False
    then have xy: "fle x y" using b64_not_NaN [OF assms(1)] b64_not_NaN [OF y]
      by (intro not_fless_fle) auto
    with le have "\<forall>z \<in> set ys. fle x z" by (auto intro: fle_trans)
    with xy le so False show ?thesis
      by (simp add: compare_numbers [OF assms(1) y])
  qed
qed

lemma sorted_sortNumbers: "\<forall>x \<in> set xs. b64 x \<Longrightarrow> sorted_wrt fle (sortNumbers xs)"
proof (induction xs)
  case Nil
  show ?case by (simp add: sortNumbers_def sortBy_def)
next
  case (Cons x xs)
  then have "sorted_wrt fle (sortNumbers xs)" by simp
  moreover have "\<forall>y \<in> set (sortNumbers xs). b64 y"
    using Cons.prems by (simp add: sortNumbers_def set_sortBy)
  moreover have "b64 x" using Cons.prems by simp
  ultimately have "sorted_wrt fle (insertBy (\<lambda>a b. fless (Fin 0) (fsub a b)) x (sortNumbers xs))"
    by (intro sorted_insertBy) auto
  then show ?case by (simp add: sortNumbers_def sortBy_def)
qed

lemma lit_quarters:
  "fl64 (1 / 4) = Fin (1 / 4)" "fl64 (1 / 2) = Fin (2 / 4)" "fl64 (3 / 4) = Fin (3 / 4)"
  by (simp_all add: fl_eval)

lemma scaled_floor:
  assumes "n < 2 ^ 32" and "j \<le> 3"
  shows "Math_floor (fmul (num n) (Fin (of_nat j / 4))) = Fin (of_nat (j * n div 4))"
proof (cases "j * n = 0")
  case True
  then have "(of_nat n :: rat) * of_nat j = 0" by auto
  moreover have "j * n div 4 = 0" by (simp only: True div_0)
  ultimately show ?thesis by (simp add: num_def fl64_def)
next
  case False
  define k where "k = int (j * n)"
  have k0: "0 < k" using False by (simp add: k_def)
  have "j * n \<le> 3 * n" using assms(2) by simp
  also have "\<dots> < 3 * 2 ^ 32" using assms(1) by simp
  finally have "j * n < 2 ^ 53" by simp
  then have k1: "k < 2 ^ 53" unfolding k_def by (metis of_nat_less_iff of_nat_numeral of_nat_power)
  have x: "(of_nat n :: rat) * (of_nat j / 4) = of_int k * pow2 (- 2)"
    by (simp add: k_def pow2_def)
  have "fmul (num n) (Fin (of_nat j / 4)) = fl64 (of_nat n * (of_nat j / 4))"
    by (simp add: num_def)
  also have "\<dots> = fl64 (of_int k * pow2 (- 2))" by (simp only: x)
  also have "\<dots> = Fin (of_int k * pow2 (- 2))"
    by (rule fl64_exact [OF k0 k1]) simp_all
  finally have "fmul (num n) (Fin (of_nat j / 4)) = Fin (of_int k * pow2 (- 2))" .
  moreover have "\<lfloor>(of_int k :: rat) * pow2 (- 2)\<rfloor> = k div 4"
    using floor_divide_of_int_eq [of k 4, where ?'a = rat] by (simp add: pow2_def)
  moreover have "k div 4 = int (j * n div 4)" by (simp add: k_def zdiv_int)
  ultimately show ?thesis by simp
qed

lemma index_at_nat: "index_at xs (Fin (of_nat m)) = nth_opt xs m"
  by simp

lemma numericStats_quants:
  assumes "length parsed < 2 ^ 32" and "parsed \<noteq> []"
  shows "quants (numericStats parsed) =
    Some \<lparr>q1 = Some (sortNumbers parsed ! (length parsed div 4)),
          median = Some (sortNumbers parsed ! (length parsed div 2)),
          q3 = Some (sortNumbers parsed ! (3 * length parsed div 4))\<rparr>"
proof -
  have l: "length (sortNumbers parsed) = length parsed" by (simp add: sortNumbers_def length_sortBy)
  have n0: "0 < length parsed" using assms(2) by simp
  have i: "length parsed div 4 < length parsed" "length parsed div 2 < length parsed"
    "3 * length parsed div 4 < length parsed" using n0 by presburger+
  have h: "2 * length parsed div 4 = length parsed div 2" by simp
  show ?thesis
    using scaled_floor [OF assms(1), of 1] scaled_floor [OF assms(1), of 2]
      scaled_floor [OF assms(1), of 3] i
    by (simp add: numericStats_def Let_def l lit_quarters index_at_nat nth_opt_def h
        del: index_at.simps Math_floor.simps fmul.simps)
qed

lemma numeric_column:
  assumes "ctype (analyzeColumn Date_parse sl cv h i) = TNumeric" and "length (getcol cv i) < 2 ^ 32"
  shows "stats (analyzeColumn Date_parse sl cv h i) =
      numericStats (map StringToNumber (filter (\<lambda>v. StringToNumber v \<noteq> NaN \<and> v \<noteq> []) (getcol cv i)))"
    and "filter (\<lambda>v. StringToNumber v \<noteq> NaN \<and> v \<noteq> []) (getcol cv i) \<noteq> []"
proof -
  define raw where "raw = getcol cv i"
  define k where "k = length (filter (\<lambda>v. StringToNumber v \<noteq> NaN \<and> v \<noteq> []) raw)"
  have nc: "numericCount (tallyOf Date_parse raw) = k" by (simp add: tallyOf_def k_def)
  have isn: "isNumericCol k (length raw)"
    using assms(1)
    by (simp add: analyzeColumn_ctype raw_def [symmetric] Let_def nc split: if_splits)
  have "k \<le> length raw" by (simp add: k_def)
  with isn assms(2) have "0 < k" by (simp add: isNumericCol_iff raw_def)
  then show "filter (\<lambda>v. StringToNumber v \<noteq> NaN \<and> v \<noteq> []) (getcol cv i) \<noteq> []"
    by (auto simp: k_def raw_def)
  show "stats (analyzeColumn Date_parse sl cv h i) =
      numericStats (map StringToNumber (filter (\<lambda>v. StringToNumber v \<noteq> NaN \<and> v \<noteq> []) (getcol cv i)))"
    using isn by (simp add: analyzeColumn_stats raw_def [symmetric] Let_def nc) (simp add: tallyOf_def)
qed

lemma parsed_b64:
  "\<forall>x \<in> set (map StringToNumber (filter (\<lambda>v. StringToNumber v \<noteq> NaN \<and> v \<noteq> []) vs)). b64 x"
  by (auto intro: StringToNumber_b64)

lemma sort_1_to_10:
  "sortNumbers [Fin 1, Fin 2, Fin 3, Fin 4, Fin 5, Fin 6, Fin 7, Fin 8, Fin 9, Fin 10] =
     [Fin 1, Fin 2, Fin 3, Fin 4, Fin 5, Fin 6, Fin 7, Fin 8, Fin 9, Fin 10]"
  by (simp add: sortNumbers_def sortBy_def fsub_def fl_eval)

text \<open>
  Claim C6. For every numeric column, with \<open>n\<close> values that parse, sorted ascending (the
  sorted array holds the same values, each as often, in ascending order), \<open>q1\<close> is the value at
  the zero-based index \<open>floor(n * 0.25)\<close>, the median the one at \<open>floor(n * 0.5)\<close> and \<open>q3\<close>
  the one at \<open>floor(n * 0.75)\<close>, with no averaging of neighbours. For the sample
  1, 2, ..., 10 this gives \<open>q1 = 3\<close>, \<open>median = 6\<close>, \<open>q3 = 8\<close>.
\<close>

theorem quantile_rule:
  "(ctype (analyzeColumn Date_parse sl cv h i) = TNumeric \<and> length (getcol cv i) < 2 ^ 32 \<longrightarrow>
      (let parsed = map StringToNumber
                      (filter (\<lambda>v. StringToNumber v \<noteq> NaN \<and> v \<noteq> []) (getcol cv i));
           sorted = sortNumbers parsed;
           n = length parsed
       in 0 < n \<and> length sorted = n
          \<and> (\<forall>x. count_list sorted x = count_list parsed x) \<and> sorted_wrt fle sorted
          \<and> quants (stats (analyzeColumn Date_parse sl cv h i)) =
              Some \<lparr>q1 = Some (sorted ! (n div 4)), median = Some (sorted ! (n div 2)),
                    q3 = Some (sorted ! (3 * n div 4))\<rparr>))
   \<and> quants (numericStats [Fin 1, Fin 2, Fin 3, Fin 4, Fin 5, Fin 6, Fin 7, Fin 8, Fin 9, Fin 10]) =
       Some \<lparr>q1 = Some (Fin 3), median = Some (Fin 6), q3 = Some (Fin 8)\<rparr>"
proof (rule conjI; (rule impI)?)
  define parsed where "parsed = map StringToNumber
                      (filter (\<lambda>v. StringToNumber v \<noteq> NaN \<and> v \<noteq> []) (getcol cv i))"
  assume a: "ctype (analyzeColumn Date_parse sl cv h i) = TNumeric \<and> length (getcol cv i) < 2 ^ 32"
  then have st: "stats (analyzeColumn Date_parse sl cv h i) = numericStats parsed"
    and ne: "parsed \<noteq> []"
    using numeric_column [of Date_parse sl cv h i] by (simp_all add: parsed_def)
  have "length parsed \<le> length (getcol cv i)" by (simp add: parsed_def)
  with a have len: "length parsed < 2 ^ 32" by linarith
  have "0 < length parsed \<and> length (sortNumbers parsed) = length parsed
          \<and> (\<forall>x. count_list (sortNumbers parsed) x = count_list parsed x)
          \<and> sorted_wrt fle (sortNumbers parsed)
          \<and> quants (stats (analyzeColumn Date_parse sl cv h i)) =
              Some \<lparr>q1 = Some (sortNumbers parsed ! (length parsed div 4)),
                    median = Some (sortNumbers parsed ! (length parsed div 2)),
                    q3 = Some (sortNumbers parsed ! (3 * length parsed div 4))\<rparr>"
    using ne sorted_sortNumbers [OF parsed_b64 [of "getcol cv i"]]
    by (simp add: st numericStats_quants [OF len ne] parsed_def [symmetric]
        sortNumbers_def length_sortBy count_sortBy)
  then show "let parsed = map StringToNumber
                      (filter (\<lambda>v. StringToNumber v \<noteq> NaN \<and> v \<noteq> []) (getcol cv i));
           sorted = sortNumbers parsed;
           n = length parsed
       in 0 < n \<and> length sorted = n
          \<and> (\<forall>x. count_list sorted x = count_list parsed x) \<and> sorted_wrt fle sorted
          \<and> quants (stats (analyzeColumn Date_parse sl cv h i)) =
              Some \<lparr>q1 = Some (sorted ! (n div 4)), median = Some (sorted ! (n div 2)),
                    q3 = Some (sorted ! (3 * n div 4))\<rparr>"
    unfolding Let_def parsed_def .
next
  have "length [Fin 1, Fin 2, Fin 3, Fin 4, Fin 5, Fin 6, Fin 7, Fin 8, Fin 9, Fin 10] < 2 ^ 32"
    by simp
  then show "quants (numericStats [Fin 1, Fin 2, Fin 3, Fin 4, Fin 5, Fin 6, Fin 7, Fin 8, Fin 9, Fin 10]) =
       Some \<lparr>q1 = Some (Fin 3), median = Some (Fin 6), q3 = Some (Fin 8)\<rparr>"
    by (simp add: numericStats_quants sort_1_to_10)
qed

text \<open>
  Claim C9, as the code has it. For every numeric column, \<open>min\<close> and \<open>max\<close> are the least and
  the greatest of the numbers obtained from those sampled values that parse as numbers, and
  \<open>mean\<close> is the binary64 quotient of their sum, added up from the left in binary64, by their
  count. Sampled values that do not parse as numbers take no part in these statistics.
\<close>

theorem numeric_summary_rule:
  "ctype (analyzeColumn Date_parse sl cv h i) = TNumeric \<and> length (getcol cv i) < 2 ^ 32 \<longrightarrow>
      (let parsed = map StringToNumber
                      (filter (\<lambda>v. StringToNumber v \<noteq> NaN \<and> v \<noteq> []) (getcol cv i))
       in parsed \<noteq> []
          \<and> smin (stats (analyzeColumn Date_parse sl cv h i)) = Some (Math_min parsed)
          \<and> Math_min parsed \<in> set parsed \<and> (\<forall>x \<in> set parsed. fle (Math_min parsed) x)
          \<and> smax (stats (analyzeColumn Date_parse sl cv h i)) = Some (Math_max parsed)
          \<and> Math_max parsed \<in> set parsed \<and> (\<forall>x \<in> set parsed. fle x (Math_max parsed))
          \<and> mean (stats (analyzeColumn Date_parse sl cv h i)) =
              Some (fdiv (foldl fadd (Fin 0) parsed) (num (length parsed))))"
proof (rule impI)
  define parsed where "parsed = map StringToNumber
                      (filter (\<lambda>v. StringToNumber v \<noteq> NaN \<and> v \<noteq> []) (getcol cv i))"
  assume a: "ctype (analyzeColumn Date_parse sl cv h i) = TNumeric \<and> length (getcol cv i) < 2 ^ 32"
  then have st: "stats (analyzeColumn Date_parse sl cv h i) = numericStats parsed"
    and ne: "parsed \<noteq> []"
    using numeric_column [of Date_parse sl cv h i] by (simp_all add: parsed_def)
  have nn: "NaN \<notin> set parsed" by (auto simp: parsed_def)
  have "parsed \<noteq> []
          \<and> smin (stats (analyzeColumn Date_parse sl cv h i)) = Some (Math_min parsed)
          \<and> Math_min parsed \<in> set parsed \<and> (\<forall>x \<in> set parsed. fle (Math_min parsed) x)
          \<and> smax (stats (analyzeColumn Date_parse sl cv h i)) = Some (Math_max parsed)
          \<and> Math_max parsed \<in> set parsed \<and> (\<forall>x \<in> set parsed. fle x (Math_max parsed))
          \<and> mean (stats (analyzeColumn Date_parse sl cv h i)) =
              Some (fdiv (foldl fadd (Fin 0) parsed) (num (length parsed)))"
    using ne Math_min_least [OF nn ne] Math_max_greatest [OF nn ne]
    by (simp add: st numericStats_def Let_def)
  then show "let parsed = map StringToNumber
                      (filter (\<lambda>v. StringToNumber v \<noteq> NaN \<and> v \<noteq> []) (getcol cv i))
       in parsed \<noteq> []
          \<and> smin (stats (analyzeColumn Date_parse sl cv h i)) = Some (Math_min parsed)
          \<and> Math_min parsed \<in> set parsed \<and> (\<forall>x \<in> set parsed. fle (Math_min parsed) x)
          \<and> smax (stats (analyzeColumn Date_parse sl cv h i)) = Some (Math_max parsed)
          \<and> Math_max parsed \<in> set parsed \<and> (\<forall>x \<in> set parsed. fle x (Math_max parsed))
          \<and> mean (stats (analyzeColumn Date_parse sl cv h i)) =
              Some (fdiv (foldl fadd (Fin 0) parsed) (num (length parsed)))"
    unfolding Let_def parsed_def .
qed


section \<open>Evaluating the profile of a given text\<close>

lemma parseCSV_unlines:
  assumes ok: "\<forall>l \<in> set (h # rows). 10 \<notin> set l \<and> 13 \<notin> set l \<and> 65533 \<notin> set l \<and> trim l \<noteq> []"
    and ne: "rows \<noteq> []"
    and d: "d = detectDelimiter h" and hd: "headers = splitLine d h"
    and vl: "vl = min (Suc (length rows)) 100"
    and m: "m = length (filter (\<lambda>row. length (splitLine d row) \<noteq> length headers) (take (vl - 1) rows))"
  shows "parseCSV Date_parse file_name (unlines (h # rows)) =
    (if vl < 5 * m then Inl (DataIntegrity m vl (length headers))
     else Inr \<lparr>rowCount = length rows,
            columns = map (\<lambda>index. analyzeColumn Date_parse (min (length rows) 2000)
                        (collectValues d (length headers) (take 2000 rows))
                        (headers ! index) index) [0..<length headers],
            preview = map (\<lambda>line. previewRow headers (splitLine d line)) (take 50 rows),
            fileName = file_name\<rparr>)"
proof -
  have l: "nonBlankLines (unlines (h # rows)) = h # rows"
    using ok by (intro nonBlankLines_unlines) auto
  have e: "65533 \<notin> set (unlines (h # rows))"
    using ok by (auto simp: set_unlines)
  have n: "2 \<le> length (h # rows)" using ne by (cases rows) auto
  have v: "vl \<le> length (h # rows)" using vl by simp
  have "malformedRows d (length headers) (h # rows) vl =
      length (filter (\<lambda>row. length (splitLine d row) \<noteq> length headers)
        (map (\<lambda>i. (h # rows) ! i) [1..<vl]))"
    by (simp add: malformedRows_def filter_map comp_def)
  also have "\<dots> = length (filter (\<lambda>row. length (splitLine d row) \<noteq> length headers)
        (take (vl - 1) (drop 1 (h # rows))))"
    by (simp only: sampled_rows [OF v])
  also have "\<dots> = m" by (simp add: m)
  finally have mm: "m = malformedRows d (length headers) (h # rows) vl" by (rule sym)
  have d0: "d = detectDelimiter ((h # rows) ! 0)" and h0: "headers = splitLine d ((h # rows) ! 0)"
    and v0: "vl = min (length (h # rows)) 100"
    using d hd vl by simp_all
  have r: "parseCSV Date_parse file_name (unlines (h # rows)) =
    (if vl < 5 * m then Inl (DataIntegrity m vl (length headers))
     else Inr \<lparr>rowCount = length (h # rows) - 1,
            columns = map (\<lambda>index. analyzeColumn Date_parse (min (length (h # rows) - 1) 2000)
                        (collectValues d (length headers) (take 2000 (drop 1 (h # rows))))
                        (headers ! index) index) [0..<length headers],
            preview = map (\<lambda>line. previewRow headers (splitLine d line)) (take 50 (drop 1 (h # rows))),
            fileName = file_name\<rparr>)"
    by (rule parseCSV_result [OF e l [symmetric] n d0 h0 v0 mm])
  show ?thesis unfolding r by simp
qed

lemmas num_eval = StringToNumber_def js_def trim_def isWhiteSpace_def nonDecimal_def
  unsignedDecimal_def exponentPart_def signedInteger_def isDigit_def isRadixDigit_def
  radixVal_def digitOf_def pow10_def Let_def

lemmas line_eval = js_def trim_def isWhiteSpace_def splitLine_def strip_quotes_def
  detectDelimiter_cases

lemma upt_0_2: "[0..<2] = [0, 1]"
  by (simp add: upt_conv_Cons)

lemma analyzeColumn_numeric:
  assumes "getcol cv i = raw" and "tallyOf Date_parse raw = t"
    and "isNumericCol (numericCount t) (length raw)"
  shows "analyzeColumn Date_parse sl cv h i =
    \<lparr>name = h, ctype = TNumeric, missing = int sl - int (length raw), unique = length (remdups raw),
     example = nth_opt raw 0, stats = numericStats (numericParsed t)\<rparr>"
  using assms(3) by (simp add: analyzeColumn_def Let_def scanValues_eq assms(1,2) card_set)

lemma analyzeColumn_string:
  assumes "getcol cv i = raw" and "tallyOf Date_parse raw = t"
    and "\<not> isNumericCol (numericCount t) (length raw)"
    and "\<not> isDateCol False (dateCount t) (length raw)"
  shows "analyzeColumn Date_parse sl cv h i =
    \<lparr>name = h, ctype = TString, missing = int sl - int (length raw), unique = length (remdups raw),
     example = nth_opt raw 0, stats = stringStats raw\<rparr>"
  using assms(3,4) by (simp add: analyzeColumn_def Let_def scanValues_eq assms(1,2) card_set)

lemma numericStats_bins:
  assumes "Math_min parsed = mn" and "Math_max parsed = mx" and "sortNumbers parsed = srt"
    and "fdiv (fsub mx mn) (num 10) = step" and "fless (Fin 0) step"
    and "fdiv (foldl fadd (Fin 0) parsed) (num (length parsed)) = mu"
  shows "numericStats parsed =
    \<lparr>histogram = Some (map (\<lambda>i. \<lparr>ename = ToFixed1 (fadd mn (fmul (num i) step)),
              evalue = length (filter (\<lambda>n. fle (fadd mn (fmul (num i) step)) n \<and>
                 (if i = 9 then fle n (fadd mn (fmul (num (i + 1)) step))
                  else fless n (fadd mn (fmul (num (i + 1)) step)))) srt)\<rparr>)
            [0, 1, 2, 3, 4, 5, 6, 7, 8, 9]),
     topValues = None, smin = Some mn, smax = Some mx, mean = Some mu,
     quants = Some \<lparr>q1 = index_at srt (Math_floor (fmul (num (length srt)) (fl64 (1 / 4)))),
                   median = index_at srt (Math_floor (fmul (num (length srt)) (fl64 (1 / 2)))),
                   q3 = index_at srt (Math_floor (fmul (num (length srt)) (fl64 (3 / 4))))\<rparr>\<rparr>"
  using assms(5)
  by (simp add: numericStats_def histogramOf_def Let_def assms(1,2,3,4,6) upt_0_10
      del: fless.simps fadd.simps fmul.simps fdiv.simps index_at.simps Math_floor.simps)

lemma sc_tally_a:
  "tallyOf Date_parse [js ''1'', js ''2'', js ''3''] =
     \<lparr>numericCount = 3, dateCount = 0, numericParsed = [Fin 1, Fin 2, Fin 3], dateParsed = []\<rparr>"
  by (simp add: tallyOf_def num_eval fl_eval)

lemma sc_stats_a:
  "numericStats [Fin 1, Fin 2, Fin 3] =
   \<lparr>histogram = Some [\<lparr>ename = ToFixed1 (Fin 1), evalue = 1\<rparr>,
            \<lparr>ename = ToFixed1 (Fin (5404319552844595 / 4503599627370496)), evalue = 0\<rparr>,
            \<lparr>ename = ToFixed1 (Fin (3152519739159347 / 2251799813685248)), evalue = 0\<rparr>,
            \<lparr>ename = ToFixed1 (Fin (3602879701896397 / 2251799813685248)), evalue = 0\<rparr>,
            \<lparr>ename = ToFixed1 (Fin (8106479329266893 / 4503599627370496)), evalue = 0\<rparr>,
            \<lparr>ename = ToFixed1 (Fin 2), evalue = 1\<rparr>,
            \<lparr>ename = ToFixed1 (Fin (2476979795053773 / 1125899906842624)), evalue = 0\<rparr>,
            \<lparr>ename = ToFixed1 (Fin (1351079888211149 / 562949953421312)), evalue = 0\<rparr>,
            \<lparr>ename = ToFixed1 (Fin (5854679515581645 / 2251799813685248)), evalue = 0\<rparr>,
            \<lparr>ename = ToFixed1 (Fin (3152519739159347 / 1125899906842624)), evalue = 1\<rparr>],
          topValues = None, smin = Some (Fin 1), smax = Some (Fin 3), mean = Some (Fin 2),
          quants = Some \<lparr>q1 = Some (Fin 1), median = Some (Fin 2), q3 = Some (Fin 3)\<rparr>\<rparr>"
proof -
  have mn: "Math_min [Fin 1, Fin 2, Fin 3] = Fin 1" by (simp add: Math_min_def)
  have mx: "Math_max [Fin 1, Fin 2, Fin 3] = Fin 3" by (simp add: Math_max_def)
  have srt: "sortNumbers [Fin 1, Fin 2, Fin 3] = [Fin 1, Fin 2, Fin 3]"
    by (simp add: sortNumbers_def sortBy_def fsub_def fl_eval)
  have step: "fdiv (fsub (Fin 3) (Fin 1)) (num 10) = Fin (3602879701896397 / 18014398509481984)"
    by (simp add: fsub_def fl_eval)
  have pos: "fless (Fin 0) (Fin (3602879701896397 / 18014398509481984))" by simp
  have mu: "fdiv (foldl fadd (Fin 0) [Fin 1, Fin 2, Fin 3]) (num (length [Fin 1, Fin 2, Fin 3])) = Fin 2"
    by (simp add: fl_eval)
  show ?thesis
    unfolding numericStats_bins [OF mn mx srt step pos mu]
    by (simp add: fle_def nth_opt_def fl_eval)
qed

lemma sc_stats_b:
  "stringStats [js ''x'', js ''y'', js ''x''] =
     emptyStats\<lparr>topValues := Some [\<lparr>ename = Text (js ''x''), evalue = Count 2\<rparr>,
                                   \<lparr>ename = Text (js ''y''), evalue = Count 1\<rparr>]\<rparr>"
  by (simp add: stringStats_def bumpCount_def setProp_def inheritedMethods_def objectEntries_def
      isArrayIndex_def isDigit_def sortBy_def js_def)

lemma sc_tally_b:
  "tallyOf Date_parse [js ''x'', js ''y'', js ''x''] =
     \<lparr>numericCount = 0, dateCount = 0, numericParsed = [], dateParsed = []\<rparr>"
  by (simp add: tallyOf_def num_eval fl_eval)

text \<open>
  Claim C1. For the text of the four lines \<^verbatim>\<open>a,b\<close>, \<^verbatim>\<open>1,x\<close>, \<^verbatim>\<open>2,y\<close>, \<^verbatim>\<open>3,x\<close>, each ended by a
  line feed, the detected delimiter is the comma and the profile succeeds with \<open>rowCount\<close> 3,
  a numeric column \<open>a\<close> with \<open>min\<close> 1, \<open>max\<close> 3 and \<open>mean\<close> 2, and a string column \<open>b\<close> whose top
  values are x with count 2, then y with count 1. The whole result is given.
\<close>

theorem end_to_end_scenario:
  "unlines [js ''a,b'', js ''1,x'', js ''2,y'', js ''3,x''] =
     js ''a,b'' @ [10] @ js ''1,x'' @ [10] @ js ''2,y'' @ [10] @ js ''3,x'' @ [10]
   \<and> detectDelimiter (nonBlankLines (unlines [js ''a,b'', js ''1,x'', js ''2,y'', js ''3,x'']) ! 0) = 44
   \<and> parseCSV Date_parse file_name (unlines [js ''a,b'', js ''1,x'', js ''2,y'', js ''3,x'']) =
     Inr \<lparr>rowCount = 3,
      columns = [\<lparr>name = js ''a'', ctype = TNumeric, missing = 0, unique = 3, example = Some (js ''1''),
        stats = \<lparr>histogram = Some [\<lparr>ename = ToFixed1 (Fin 1), evalue = 1\<rparr>,
            \<lparr>ename = ToFixed1 (Fin (5404319552844595 / 4503599627370496)), evalue = 0\<rparr>,
            \<lparr>ename = ToFixed1 (Fin (3152519739159347 / 2251799813685248)), evalue = 0\<rparr>,
            \<lparr>ename = ToFixed1 (Fin (3602879701896397 / 2251799813685248)), evalue = 0\<rparr>,
            \<lparr>ename = ToFixed1 (Fin (8106479329266893 / 4503599627370496)), evalue = 0\<rparr>,
            \<lparr>ename = ToFixed1 (Fin 2), evalue = 1\<rparr>,
            \<lparr>ename = ToFixed1 (Fin (2476979795053773 / 1125899906842624)), evalue = 0\<rparr>,
            \<lparr>ename = ToFixed1 (Fin (1351079888211149 / 562949953421312)), evalue = 0\<rparr>,
            \<lparr>ename = ToFixed1 (Fin (5854679515581645 / 2251799813685248)), evalue = 0\<rparr>,
            \<lparr>ename = ToFixed1 (Fin (3152519739159347 / 1125899906842624)), evalue = 1\<rparr>],
          topValues = None, smin = Some (Fin 1), smax = Some (Fin 3), mean = Some (Fin 2),
          quants = Some \<lparr>q1 = Some (Fin 1), median = Some (Fin 2), q3 = Some (Fin 3)\<rparr>\<rparr>\<rparr>,
       \<lparr>name = js ''b'', ctype = TString, missing = 0, unique = 2, example = Some (js ''x''),
        stats = emptyStats\<lparr>topValues := Some [\<lparr>ename = Text (js ''x''), evalue = Count 2\<rparr>,
                                             \<lparr>ename = Text (js ''y''), evalue = Count 1\<rparr>]\<rparr>\<rparr>],
      preview = [[(js ''a'', Some (js ''1'')), (js ''b'', Some (js ''x''))],
         [(js ''a'', Some (js ''2'')), (js ''b'', Some (js ''y''))],
         [(js ''a'', Some (js ''3'')), (js ''b'', Some (js ''x''))]],
      fileName = file_name\<rparr>"
proof -
  define rows where "rows = [js ''1,x'', js ''2,y'', js ''3,x'']"
  define cv where "cv = collectValues 44 2 (take 2000 rows)"
  have ok: "\<forall>l \<in> set (js ''a,b'' # rows). 10 \<notin> set l \<and> 13 \<notin> set l \<and> 65533 \<notin> set l \<and> trim l \<noteq> []"
    by (simp add: rows_def js_def trim_def isWhiteSpace_def)
  have ne: "rows \<noteq> []" by (simp add: rows_def)
  have d: "44 = detectDelimiter (js ''a,b'')" by (simp add: line_eval)
  have hd: "[js ''a'', js ''b''] = splitLine 44 (js ''a,b'')" by (simp add: line_eval)
  have vl: "4 = min (Suc (length rows)) 100" by (simp add: rows_def)
  have m: "0 = length (filter (\<lambda>row. length (splitLine 44 row) \<noteq> length [js ''a'', js ''b''])
                        (take (4 - 1) rows))"
    by (simp add: rows_def line_eval)
  have raw_a: "getcol cv 0 = [js ''1'', js ''2'', js ''3'']"
    unfolding cv_def by (subst getcol_collectValues) (simp_all add: rows_def line_eval)
  have raw_b: "getcol cv 1 = [js ''x'', js ''y'', js ''x'']"
    unfolding cv_def by (subst getcol_collectValues) (simp_all add: rows_def line_eval)
  have col_a: "analyzeColumn Date_parse 3 cv (js ''a'') 0 =
      \<lparr>name = js ''a'', ctype = TNumeric, missing = 0, unique = 3, example = Some (js ''1''),
       stats = numericStats [Fin 1, Fin 2, Fin 3]\<rparr>"
    by (subst analyzeColumn_numeric [OF raw_a sc_tally_a])
      (simp_all add: isNumericCol_iff nth_opt_def js_def)
  have col_b: "analyzeColumn Date_parse 3 cv (js ''b'') 1 =
      \<lparr>name = js ''b'', ctype = TString, missing = 0, unique = 2, example = Some (js ''x''),
       stats = stringStats [js ''x'', js ''y'', js ''x'']\<rparr>"
    by (subst analyzeColumn_string [OF raw_b sc_tally_b])
      (simp_all add: isNumericCol_iff isDateCol_iff nth_opt_def js_def)
  have prev: "map (\<lambda>line. previewRow [js ''a'', js ''b''] (splitLine 44 line)) (take 50 rows) =
      [[(js ''a'', Some (js ''1'')), (js ''b'', Some (js ''x''))],
       [(js ''a'', Some (js ''2'')), (js ''b'', Some (js ''y''))],
       [(js ''a'', Some (js ''3'')), (js ''b'', Some (js ''x''))]]"
    by (simp add: rows_def previewRow_def setProp_def objectEntries_def isArrayIndex_def isDigit_def
      upt_0_2 nth_opt_def line_eval)
  have len: "length rows = 3" by (simp add: rows_def)
  have l: "nonBlankLines (unlines (js ''a,b'' # rows)) = js ''a,b'' # rows"
    using ok by (intro nonBlankLines_unlines) auto
  have "parseCSV Date_parse file_name (unlines (js ''a,b'' # rows)) =
     Inr \<lparr>rowCount = 3,
      columns = [analyzeColumn Date_parse 3 cv (js ''a'') 0, analyzeColumn Date_parse 3 cv (js ''b'') 1],
      preview = map (\<lambda>line. previewRow [js ''a'', js ''b''] (splitLine 44 line)) (take 50 rows),
      fileName = file_name\<rparr>"
    unfolding parseCSV_unlines [OF ok ne d hd vl m]
    by (simp add: len upt_0_2 cv_def numeral_2_eq_2)
  then show ?thesis
    unfolding col_a col_b prev sc_stats_a sc_stats_b
    using d l by (simp add: rows_def unlines_def)
qed


section \<open>The histogram of a column that loses its maximum\<close>

lemma hb_tally:
  "tallyOf Date_parse [js ''0'', js ''0.9''] =
     \<lparr>numericCount = 2, dateCount = 0, numericParsed = [Fin 0, Fin (8106479329266893 / 9007199254740992)], dateParsed = []\<rparr>"
  by (simp add: tallyOf_def num_eval fl_eval)

lemma hb_stats:
  "numericStats [Fin 0, Fin (8106479329266893 / 9007199254740992)] =
   \<lparr>histogram = Some [\<lparr>ename = ToFixed1 (Fin 0), evalue = 1\<rparr>,
            \<lparr>ename = ToFixed1 (Fin (3242591731706757 / 36028797018963968)), evalue = 0\<rparr>,
            \<lparr>ename = ToFixed1 (Fin (3242591731706757 / 18014398509481984)), evalue = 0\<rparr>,
            \<lparr>ename = ToFixed1 (Fin (607985949695017 / 2251799813685248)), evalue = 0\<rparr>,
            \<lparr>ename = ToFixed1 (Fin (3242591731706757 / 9007199254740992)), evalue = 0\<rparr>,
            \<lparr>ename = ToFixed1 (Fin (2026619832316723 / 4503599627370496)), evalue = 0\<rparr>,
            \<lparr>ename = ToFixed1 (Fin (607985949695017 / 1125899906842624)), evalue = 0\<rparr>,
            \<lparr>ename = ToFixed1 (Fin (5674535530486825 / 9007199254740992)), evalue = 0\<rparr>,
            \<lparr>ename = ToFixed1 (Fin (3242591731706757 / 4503599627370496)), evalue = 0\<rparr>,
            \<lparr>ename = ToFixed1 (Fin (7295831396340203 / 9007199254740992)), evalue = 0\<rparr>],
          topValues = None, smin = Some (Fin 0), smax = Some (Fin (8106479329266893 / 9007199254740992)), mean = Some (Fin (8106479329266893 / 18014398509481984)),
          quants = Some \<lparr>q1 = Some (Fin 0), median = Some (Fin (8106479329266893 / 9007199254740992)), q3 = Some (Fin (8106479329266893 / 9007199254740992))\<rparr>\<rparr>"
proof -
  have mn: "Math_min [Fin 0, Fin (8106479329266893 / 9007199254740992)] = Fin 0" by (simp add: Math_min_def)
  have mx: "Math_max [Fin 0, Fin (8106479329266893 / 9007199254740992)] = Fin (8106479329266893 / 9007199254740992)" by (simp add: Math_max_def)
  have srt: "sortNumbers [Fin 0, Fin (8106479329266893 / 9007199254740992)] = [Fin 0, Fin (8106479329266893 / 9007199254740992)]"
    by (simp add: sortNumbers_def sortBy_def fsub_def fl_eval)
  have step: "fdiv (fsub (Fin (8106479329266893 / 9007199254740992)) (Fin 0)) (num 10) = Fin (3242591731706757 / 36028797018963968)"
    by (simp add: fsub_def fl_eval)
  have pos: "fless (Fin 0) (Fin (3242591731706757 / 36028797018963968))" by simp
  have mu: "fdiv (foldl fadd (Fin 0) [Fin 0, Fin (8106479329266893 / 9007199254740992)]) (num (length [Fin 0, Fin (8106479329266893 / 9007199254740992)])) = Fin (8106479329266893 / 18014398509481984)"
    by (simp add: fl_eval)
  show ?thesis
    unfolding numericStats_bins [OF mn mx srt step pos mu]
    by (simp add: fle_def nth_opt_def fl_eval)
qed

text \<open>
  Claim C5 at the text of the three lines \<^verbatim>\<open>v\<close>, \<^verbatim>\<open>0\<close>, \<^verbatim>\<open>0.9\<close>. The column is numeric
  with \<open>min\<close> 0 and \<open>max\<close> 0.9, its histogram has ten bins, and the bins count one value in
  all: 0 in the first bin and 0.9, the maximum, in no bin. The upper edge of the last bin is
  \<open>min + 10 * step\<close> as binary64 computes it, 0.8999999999999999, which is below the maximum.
\<close>

theorem histogram_loses_maximum:
  "parseCSV Date_parse file_name (unlines [js ''v'', js ''0'', js ''0.9'']) =
     Inr \<lparr>rowCount = 2,
      columns = [\<lparr>name = js ''v'', ctype = TNumeric, missing = 0, unique = 2, example = Some (js ''0''),
        stats = \<lparr>histogram = Some [\<lparr>ename = ToFixed1 (Fin 0), evalue = 1\<rparr>,
            \<lparr>ename = ToFixed1 (Fin (3242591731706757 / 36028797018963968)), evalue = 0\<rparr>,
            \<lparr>ename = ToFixed1 (Fin (3242591731706757 / 18014398509481984)), evalue = 0\<rparr>,
            \<lparr>ename = ToFixed1 (Fin (607985949695017 / 2251799813685248)), evalue = 0\<rparr>,
            \<lparr>ename = ToFixed1 (Fin (3242591731706757 / 9007199254740992)), evalue = 0\<rparr>,
            \<lparr>ename = ToFixed1 (Fin (2026619832316723 / 4503599627370496)), evalue = 0\<rparr>,
            \<lparr>ename = ToFixed1 (Fin (607985949695017 / 1125899906842624)), evalue = 0\<rparr>,
            \<lparr>ename = ToFixed1 (Fin (5674535530486825 / 9007199254740992)), evalue = 0\<rparr>,
            \<lparr>ename = ToFixed1 (Fin (3242591731706757 / 4503599627370496)), evalue = 0\<rparr>,
            \<lparr>ename = ToFixed1 (Fin (7295831396340203 / 9007199254740992)), evalue = 0\<rparr>],
          topValues = None, smin = Some (Fin 0), smax = Some (Fin (8106479329266893 / 9007199254740992)), mean = Some (Fin (8106479329266893 / 18014398509481984)),
          quants = Some \<lparr>q1 = Some (Fin 0), median = Some (Fin (8106479329266893 / 9007199254740992)), q3 = Some (Fin (8106479329266893 / 9007199254740992))\<rparr>\<rparr>\<rparr>],
      preview = [[(js ''v'', Some (js ''0''))],
         [(js ''v'', Some (js ''0.9''))]],
      fileName = file_name\<rparr>
   \<and> fadd (Fin 0) (fmul (num 10) (Fin (3242591731706757 / 36028797018963968))) = Fin (2026619832316723 / 2251799813685248)
   \<and> fless (Fin (2026619832316723 / 2251799813685248)) (Fin (8106479329266893 / 9007199254740992))"
proof -
  define rows where "rows = [js ''0'', js ''0.9'']"
  define cv where "cv = collectValues 44 1 (take 2000 rows)"
  have ok: "\<forall>l \<in> set (js ''v'' # rows). 10 \<notin> set l \<and> 13 \<notin> set l \<and> 65533 \<notin> set l \<and> trim l \<noteq> []"
    by (simp add: rows_def js_def trim_def isWhiteSpace_def)
  have ne: "rows \<noteq> []" by (simp add: rows_def)
  have d: "44 = detectDelimiter (js ''v'')" by (simp add: line_eval)
  have hd: "[js ''v''] = splitLine 44 (js ''v'')" by (simp add: line_eval)
  have vl: "3 = min (Suc (length rows)) 100" by (simp add: rows_def)
  have m: "0 = length (filter (\<lambda>row. length (splitLine 44 row) \<noteq> length [js ''v''])
                        (take (3 - 1) rows))"
    by (simp add: rows_def line_eval)
  have raw: "getcol cv 0 = [js ''0'', js ''0.9'']"
    unfolding cv_def by (subst getcol_collectValues) (simp_all add: rows_def line_eval)
  have col: "analyzeColumn Date_parse 2 cv (js ''v'') 0 =
      \<lparr>name = js ''v'', ctype = TNumeric, missing = 0, unique = 2, example = Some (js ''0''),
       stats = numericStats [Fin 0, Fin (8106479329266893 / 9007199254740992)]\<rparr>"
    by (subst analyzeColumn_numeric [OF raw hb_tally])
      (simp_all add: isNumericCol_iff nth_opt_def js_def)
  have prev: "map (\<lambda>line. previewRow [js ''v''] (splitLine 44 line)) (take 50 rows) =
      [[(js ''v'', Some (js ''0''))],
         [(js ''v'', Some (js ''0.9''))]]"
    by (simp add: rows_def previewRow_def setProp_def objectEntries_def isArrayIndex_def isDigit_def
      upt_0_1 nth_opt_def line_eval)
  have len: "length rows = 2" by (simp add: rows_def)
  have "parseCSV Date_parse file_name (unlines (js ''v'' # rows)) =
     Inr \<lparr>rowCount = 2,
      columns = [analyzeColumn Date_parse 2 cv (js ''v'') 0],
      preview = map (\<lambda>line. previewRow [js ''v''] (splitLine 44 line)) (take 50 rows),
      fileName = file_name\<rparr>"
    unfolding parseCSV_unlines [OF ok ne d hd vl m]
    by (simp add: len upt_0_1 cv_def)
  then have main: "parseCSV Date_parse file_name (unlines [js ''v'', js ''0'', js ''0.9'']) =
         Inr \<lparr>rowCount = 2,
          columns = [\<lparr>name = js ''v'', ctype = TNumeric, missing = 0, unique = 2, example = Some (js ''0''),
            stats = \<lparr>histogram = Some [\<lparr>ename = ToFixed1 (Fin 0), evalue = 1\<rparr>,
                \<lparr>ename = ToFixed1 (Fin (3242591731706757 / 36028797018963968)), evalue = 0\<rparr>,
                \<lparr>ename = ToFixed1 (Fin (3242591731706757 / 18014398509481984)), evalue = 0\<rparr>,
                \<lparr>ename = ToFixed1 (Fin (607985949695017 / 2251799813685248)), evalue = 0\<rparr>,
                \<lparr>ename = ToFixed1 (Fin (3242591731706757 / 9007199254740992)), evalue = 0\<rparr>,
                \<lparr>ename = ToFixed1 (Fin (2026619832316723 / 4503599627370496)), evalue = 0\<rparr>,
                \<lparr>ename = ToFixed1 (Fin (607985949695017 / 1125899906842624)), evalue = 0\<rparr>,
                \<lparr>ename = ToFixed1 (Fin (5674535530486825 / 9007199254740992)), evalue = 0\<rparr>,
                \<lparr>ename = ToFixed1 (Fin (3242591731706757 / 4503599627370496)), evalue = 0\<rparr>,
                \<lparr>ename = ToFixed1 (Fin (7295831396340203 / 9007199254740992)), evalue = 0\<rparr>],
              topValues = None, smin = Some (Fin 0), smax = Some (Fin (8106479329266893 / 9007199254740992)), mean = Some (Fin (8106479329266893 / 18014398509481984)),
              quants = Some \<lparr>q1 = Some (Fin 0), median = Some (Fin (8106479329266893 / 9007199254740992)), q3 = Some (Fin (8106479329266893 / 9007199254740992))\<rparr>\<rparr>\<rparr>],
          preview = [[(js ''v'', Some (js ''0''))],
             [(js ''v'', Some (js ''0.9''))]],
          fileName = file_name\<rparr>"
    unfolding col prev hb_stats by (simp add: rows_def)
  have edge: "fadd (Fin 0) (fmul (num 10) (Fin (3242591731706757 / 36028797018963968))) = Fin (2026619832316723 / 2251799813685248)"
    by (simp add: fl_eval)
  have "fless (Fin (2026619832316723 / 2251799813685248)) (Fin (8106479329266893 / 9007199254740992))" by simp
  with main edge show ?thesis by (simp only: simp_thms)
qed

lemma ns_tally:
  "tallyOf Date_parse [js ''1'', js ''2'', js ''3'', js ''4'', js ''5'', js ''x''] =
     \<lparr>numericCount = 5, dateCount = 0, numericParsed = [Fin 1, Fin 2, Fin 3, Fin 4, Fin 5], dateParsed = []\<rparr>"
  by (simp add: tallyOf_def num_eval fl_eval)

lemma ns_stats:
  "numericStats [Fin 1, Fin 2, Fin 3, Fin 4, Fin 5] =
   \<lparr>histogram = Some [\<lparr>ename = ToFixed1 (Fin 1), evalue = 1\<rparr>,
            \<lparr>ename = ToFixed1 (Fin (3152519739159347 / 2251799813685248)), evalue = 0\<rparr>,
            \<lparr>ename = ToFixed1 (Fin (8106479329266893 / 4503599627370496)), evalue = 1\<rparr>,
            \<lparr>ename = ToFixed1 (Fin (2476979795053773 / 1125899906842624)), evalue = 0\<rparr>,
            \<lparr>ename = ToFixed1 (Fin (5854679515581645 / 2251799813685248)), evalue = 0\<rparr>,
            \<lparr>ename = ToFixed1 (Fin 3), evalue = 1\<rparr>,
            \<lparr>ename = ToFixed1 (Fin (1914029841632461 / 562949953421312)), evalue = 0\<rparr>,
            \<lparr>ename = ToFixed1 (Fin (8556839292003943 / 2251799813685248)), evalue = 1\<rparr>,
            \<lparr>ename = ToFixed1 (Fin (4728779608739021 / 1125899906842624)), evalue = 0\<rparr>,
            \<lparr>ename = ToFixed1 (Fin (2589569785738035 / 562949953421312)), evalue = 1\<rparr>],
          topValues = None, smin = Some (Fin 1), smax = Some (Fin 5), mean = Some (Fin 3),
          quants = Some \<lparr>q1 = Some (Fin 2), median = Some (Fin 3), q3 = Some (Fin 4)\<rparr>\<rparr>"
proof -
  have mn: "Math_min [Fin 1, Fin 2, Fin 3, Fin 4, Fin 5] = Fin 1" by (simp add: Math_min_def)
  have mx: "Math_max [Fin 1, Fin 2, Fin 3, Fin 4, Fin 5] = Fin 5" by (simp add: Math_max_def)
  have srt: "sortNumbers [Fin 1, Fin 2, Fin 3, Fin 4, Fin 5] = [Fin 1, Fin 2, Fin 3, Fin 4, Fin 5]"
    by (simp add: sortNumbers_def sortBy_def fsub_def fl_eval)
  have step: "fdiv (fsub (Fin 5) (Fin 1)) (num 10) = Fin (3602879701896397 / 9007199254740992)"
    by (simp add: fsub_def fl_eval)
  have pos: "fless (Fin 0) (Fin (3602879701896397 / 9007199254740992))" by simp
  have mu: "fdiv (foldl fadd (Fin 0) [Fin 1, Fin 2, Fin 3, Fin 4, Fin 5]) (num (length [Fin 1, Fin 2, Fin 3, Fin 4, Fin 5])) = Fin 3"
    by (simp add: fl_eval)
  show ?thesis
    unfolding numericStats_bins [OF mn mx srt step pos mu]
    by (simp add: fle_def nth_opt_def fl_eval)
qed

text \<open>
  The claim C9 as stated fails: in the column \<^verbatim>\<open>1, 2, 3, 4, 5, x\<close> the value \<^verbatim>\<open>x\<close> parses to
  NaN, so the minimum, the maximum and the mean of the numeric parses of all six sampled
  values are NaN, while the column is numeric with \<open>min\<close> 1, \<open>max\<close> 5 and \<open>mean\<close> 3, the mean of
  the five values that parse.
\<close>

theorem numeric_stats_all_values_counterexample:
  "parseCSV noDate (js ''f.csv'') (unlines [js ''v'', js ''1'', js ''2'', js ''3'', js ''4'', js ''5'', js ''x'']) =
     Inr \<lparr>rowCount = 6,
      columns = [\<lparr>name = js ''v'', ctype = TNumeric, missing = 0, unique = 6, example = Some (js ''1''),
        stats = \<lparr>histogram = Some [\<lparr>ename = ToFixed1 (Fin 1), evalue = 1\<rparr>,
            \<lparr>ename = ToFixed1 (Fin (3152519739159347 / 2251799813685248)), evalue = 0\<rparr>,
            \<lparr>ename = ToFixed1 (Fin (8106479329266893 / 4503599627370496)), evalue = 1\<rparr>,
            \<lparr>ename = ToFixed1 (Fin (2476979795053773 / 1125899906842624)), evalue = 0\<rparr>,
            \<lparr>ename = ToFixed1 (Fin (5854679515581645 / 2251799813685248)), evalue = 0\<rparr>,
            \<lparr>ename = ToFixed1 (Fin 3), evalue = 1\<rparr>,
            \<lparr>ename = ToFixed1 (Fin (1914029841632461 / 562949953421312)), evalue = 0\<rparr>,
            \<lparr>ename = ToFixed1 (Fin (8556839292003943 / 2251799813685248)), evalue = 1\<rparr>,
            \<lparr>ename = ToFixed1 (Fin (4728779608739021 / 1125899906842624)), evalue = 0\<rparr>,
            \<lparr>ename = ToFixed1 (Fin (2589569785738035 / 562949953421312)), evalue = 1\<rparr>],
          topValues = None, smin = Some (Fin 1), smax = Some (Fin 5), mean = Some (Fin 3),
          quants = Some \<lparr>q1 = Some (Fin 2), median = Some (Fin 3), q3 = Some (Fin 4)\<rparr>\<rparr>\<rparr>],
      preview = [[(js ''v'', Some (js ''1''))],
         [(js ''v'', Some (js ''2''))],
         [(js ''v'', Some (js ''3''))],
         [(js ''v'', Some (js ''4''))],
         [(js ''v'', Some (js ''5''))],
         [(js ''v'', Some (js ''x''))]],
      fileName = (js ''f.csv'')\<rparr>
   \<and> StringToNumber (js ''x'') = NaN
   \<and> Math_min (map StringToNumber [js ''1'', js ''2'', js ''3'', js ''4'', js ''5'', js ''x'']) = NaN
   \<and> Math_max (map StringToNumber [js ''1'', js ''2'', js ''3'', js ''4'', js ''5'', js ''x'']) = NaN
   \<and> fdiv (foldl fadd (Fin 0) (map StringToNumber [js ''1'', js ''2'', js ''3'', js ''4'', js ''5'', js ''x''])) (num 6) = NaN"
proof -
  define rows where "rows = [js ''1'', js ''2'', js ''3'', js ''4'', js ''5'', js ''x'']"
  define cv where "cv = collectValues 44 1 (take 2000 rows)"
  have ok: "\<forall>l \<in> set (js ''v'' # rows). 10 \<notin> set l \<and> 13 \<notin> set l \<and> 65533 \<notin> set l \<and> trim l \<noteq> []"
    by (simp add: rows_def js_def trim_def isWhiteSpace_def)
  have ne: "rows \<noteq> []" by (simp add: rows_def)
  have d: "44 = detectDelimiter (js ''v'')" by (simp add: line_eval)
  have hd: "[js ''v''] = splitLine 44 (js ''v'')" by (simp add: line_eval)
  have vl: "7 = min (Suc (length rows)) 100" by (simp add: rows_def)
  have m: "0 = length (filter (\<lambda>row. length (splitLine 44 row) \<noteq> length [js ''v''])
                        (take (7 - 1) rows))"
    by (simp add: rows_def line_eval)
  have raw: "getcol cv 0 = [js ''1'', js ''2'', js ''3'', js ''4'', js ''5'', js ''x'']"
    unfolding cv_def by (subst getcol_collectValues) (simp_all add: rows_def line_eval)
  have col: "analyzeColumn noDate 6 cv (js ''v'') 0 =
      \<lparr>name = js ''v'', ctype = TNumeric, missing = 0, unique = 6, example = Some (js ''1''),
       stats = numericStats [Fin 1, Fin 2, Fin 3, Fin 4, Fin 5]\<rparr>"
    by (subst analyzeColumn_numeric [OF raw ns_tally])
      (simp_all add: isNumericCol_iff nth_opt_def js_def)
  have prev: "map (\<lambda>line. previewRow [js ''v''] (splitLine 44 line)) (take 50 rows) =
      [[(js ''v'', Some (js ''1''))],
         [(js ''v'', Some (js ''2''))],
         [(js ''v'', Some (js ''3''))],
         [(js ''v'', Some (js ''4''))],
         [(js ''v'', Some (js ''5''))],
         [(js ''v'', Some (js ''x''))]]"
    by (simp add: rows_def previewRow_def setProp_def objectEntries_def isArrayIndex_def isDigit_def
      upt_0_1 nth_opt_def line_eval)
  have len: "length rows = 6" by (simp add: rows_def)
  have "parseCSV noDate (js ''f.csv'') (unlines (js ''v'' # rows)) =
     Inr \<lparr>rowCount = 6,
      columns = [analyzeColumn noDate 6 cv (js ''v'') 0],
      preview = map (\<lambda>line. previewRow [js ''v''] (splitLine 44 line)) (take 50 rows),
      fileName = (js ''f.csv'')\<rparr>"
    unfolding parseCSV_unlines [OF ok ne d hd vl m]
    by (simp add: len upt_0_1 cv_def)
  then have main: "parseCSV noDate (js ''f.csv'') (unlines [js ''v'', js ''1'', js ''2'', js ''3'', js ''4'', js ''5'', js ''x'']) =
         Inr \<lparr>rowCount = 6,
          columns = [\<lparr>name = js ''v'', ctype = TNumeric, missing = 0, unique = 6, example = Some (js ''1''),
            stats = \<lparr>histogram = Some [\<lparr>ename = ToFixed1 (Fin 1), evalue = 1\<rparr>,
                \<lparr>ename = ToFixed1 (Fin (3152519739159347 / 2251799813685248)), evalue = 0\<rparr>,
                \<lparr>ename = ToFixed1 (Fin (8106479329266893 / 4503599627370496)), evalue = 1\<rparr>,
                \<lparr>ename = ToFixed1 (Fin (2476979795053773 / 1125899906842624)), evalue = 0\<rparr>,
                \<lparr>ename = ToFixed1 (Fin (5854679515581645 / 2251799813685248)), evalue = 0\<rparr>,
                \<lparr>ename = ToFixed1 (Fin 3), evalue = 1\<rparr>,
                \<lparr>ename = ToFixed1 (Fin (1914029841632461 / 562949953421312)), evalue = 0\<rparr>,
                \<lparr>ename = ToFixed1 (Fin (8556839292003943 / 2251799813685248)), evalue = 1\<rparr>,
                \<lparr>ename = ToFixed1 (Fin (4728779608739021 / 1125899906842624)), evalue = 0\<rparr>,
                \<lparr>ename = ToFixed1 (Fin (2589569785738035 / 562949953421312)), evalue = 1\<rparr>],
              topValues = None, smin = Some (Fin 1), smax = Some (Fin 5), mean = Some (Fin 3),
              quants = Some \<lparr>q1 = Some (Fin 2), median = Some (Fin 3), q3 = Some (Fin 4)\<rparr>\<rparr>\<rparr>],
          preview = [[(js ''v'', Some (js ''1''))],
             [(js ''v'', Some (js ''2''))],
             [(js ''v'', Some (js ''3''))],
             [(js ''v'', Some (js ''4''))],
             [(js ''v'', Some (js ''5''))],
             [(js ''v'', Some (js ''x''))]],
          fileName = (js ''f.csv'')\<rparr>"
    unfolding col prev ns_stats by (simp add: rows_def)
  have x: "StringToNumber (js ''x'') = NaN" by (simp add: num_eval)
  have all: "map StringToNumber [js ''1'', js ''2'', js ''3'', js ''4'', js ''5'', js ''x''] = [Fin 1, Fin 2, Fin 3, Fin 4, Fin 5, NaN]"
    by (simp add: num_eval fl_eval)
  have "Math_min [Fin 1, Fin 2, Fin 3, Fin 4, Fin 5, NaN] = NaN"
    and "Math_max [Fin 1, Fin 2, Fin 3, Fin 4, Fin 5, NaN] = NaN"
    and "fdiv (foldl fadd (Fin 0) [Fin 1, Fin 2, Fin 3, Fin 4, Fin 5, NaN]) (num 6) = NaN"
    by (simp_all add: Math_min_def Math_max_def fl_eval)
  with main x show ?thesis unfolding all by (simp only: simp_thms)
qed


section \<open>The rules at concrete columns and files\<close>

lemma w_raw: "getcol [0 \<mapsto> vs] 0 = vs"
  by (simp add: getcol_def)

lemma w_tally5:
  "tallyOf noDate [js ''1'', js ''2'', js ''3'', js ''4'', js ''5'', js ''x''] =
     \<lparr>numericCount = 5, dateCount = 0, numericParsed = [Fin 1, Fin 2, Fin 3, Fin 4, Fin 5],
      dateParsed = []\<rparr>"
  by (simp add: tallyOf_def num_eval fl_eval)

lemma w_numeric5:
  "ctype (analyzeColumn noDate 6 [0 \<mapsto> [js ''1'', js ''2'', js ''3'', js ''4'', js ''5'', js ''x'']]
            (js ''v'') 0) = TNumeric"
  by (subst analyzeColumn_numeric [OF w_raw w_tally5]) (simp_all add: isNumericCol_iff)

lemma w_parsed5:
  "map StringToNumber (filter (\<lambda>v. StringToNumber v \<noteq> NaN \<and> v \<noteq> [])
      [js ''1'', js ''2'', js ''3'', js ''4'', js ''5'', js ''x'']) = [Fin 1, Fin 2, Fin 3, Fin 4, Fin 5]"
  using w_tally5 by (simp add: tallyOf_def)

lemma w_sort5:
  "sortNumbers [Fin 1, Fin 2, Fin 3, Fin 4, Fin 5] = [Fin 1, Fin 2, Fin 3, Fin 4, Fin 5]"
  by (simp add: sortNumbers_def sortBy_def fsub_def fl_eval)

theorem quantile_rule_witness:
  "ctype (analyzeColumn noDate 6 [0 \<mapsto> [js ''1'', js ''2'', js ''3'', js ''4'', js ''5'', js ''x'']]
            (js ''v'') 0) = TNumeric
   \<and> length (getcol [0 \<mapsto> [js ''1'', js ''2'', js ''3'', js ''4'', js ''5'', js ''x'']] 0) < 2 ^ 32
   \<and> quants (stats (analyzeColumn noDate 6
          [0 \<mapsto> [js ''1'', js ''2'', js ''3'', js ''4'', js ''5'', js ''x'']] (js ''v'') 0)) =
       Some \<lparr>q1 = Some (Fin 2), median = Some (Fin 3), q3 = Some (Fin 4)\<rparr>"
proof -
  have h: "ctype (analyzeColumn noDate 6 [0 \<mapsto> [js ''1'', js ''2'', js ''3'', js ''4'', js ''5'', js ''x'']]
            (js ''v'') 0) = TNumeric
     \<and> length (getcol [0 \<mapsto> [js ''1'', js ''2'', js ''3'', js ''4'', js ''5'', js ''x'']] 0) < 2 ^ 32"
    by (simp add: w_numeric5 w_raw)
  from quantile_rule [of noDate 6 "[0 \<mapsto> [js ''1'', js ''2'', js ''3'', js ''4'', js ''5'', js ''x'']]"
      "js ''v''" 0] h
  show ?thesis
    unfolding Let_def w_raw w_parsed5 w_sort5 by simp
qed

theorem numeric_summary_rule_witness:
  "ctype (analyzeColumn noDate 6 [0 \<mapsto> [js ''1'', js ''2'', js ''3'', js ''4'', js ''5'', js ''x'']]
            (js ''v'') 0) = TNumeric
   \<and> length (getcol [0 \<mapsto> [js ''1'', js ''2'', js ''3'', js ''4'', js ''5'', js ''x'']] 0) < 2 ^ 32
   \<and> smin (stats (analyzeColumn noDate 6
          [0 \<mapsto> [js ''1'', js ''2'', js ''3'', js ''4'', js ''5'', js ''x'']] (js ''v'') 0)) = Some (Fin 1)
   \<and> smax (stats (analyzeColumn noDate 6
          [0 \<mapsto> [js ''1'', js ''2'', js ''3'', js ''4'', js ''5'', js ''x'']] (js ''v'') 0)) = Some (Fin 5)
   \<and> mean (stats (analyzeColumn noDate 6
          [0 \<mapsto> [js ''1'', js ''2'', js ''3'', js ''4'', js ''5'', js ''x'']] (js ''v'') 0)) = Some (Fin 3)"
proof -
  have h: "ctype (analyzeColumn noDate 6 [0 \<mapsto> [js ''1'', js ''2'', js ''3'', js ''4'', js ''5'', js ''x'']]
            (js ''v'') 0) = TNumeric
     \<and> length (getcol [0 \<mapsto> [js ''1'', js ''2'', js ''3'', js ''4'', js ''5'', js ''x'']] 0) < 2 ^ 32"
    by (simp add: w_numeric5 w_raw)
  have v: "Math_min [Fin 1, Fin 2, Fin 3, Fin 4, Fin 5] = Fin 1"
    "Math_max [Fin 1, Fin 2, Fin 3, Fin 4, Fin 5] = Fin 5"
    "fdiv (foldl fadd (Fin 0) [Fin 1, Fin 2, Fin 3, Fin 4, Fin 5])
       (num (length [Fin 1, Fin 2, Fin 3, Fin 4, Fin 5])) = Fin 3"
    by (simp_all add: Math_min_def Math_max_def fl_eval)
  from numeric_summary_rule [of noDate 6
      "[0 \<mapsto> [js ''1'', js ''2'', js ''3'', js ''4'', js ''5'', js ''x'']]" "js ''v''" 0] h
  show ?thesis
    unfolding Let_def w_raw w_parsed5 v by simp
qed

theorem column_type_rule_witness:
  "getcol Map.empty 0 = []
   \<and> ctype (analyzeColumn noDate 0 Map.empty (js ''h'') 0) = TString
   \<and> stats (analyzeColumn noDate 0 Map.empty (js ''h'') 0) = emptyStats\<lparr>topValues := Some []\<rparr>
   \<and> getcol [0 \<mapsto> [js ''1'', js ''2'', js ''3'', js ''4'', js ''x'']] 0 \<noteq> []
   \<and> [] \<notin> set (getcol [0 \<mapsto> [js ''1'', js ''2'', js ''3'', js ''4'', js ''x'']] 0)
   \<and> length (getcol [0 \<mapsto> [js ''1'', js ''2'', js ''3'', js ''4'', js ''x'']] 0) < 2 ^ 32
   \<and> length (filter (\<lambda>v. StringToNumber v \<noteq> NaN) [js ''1'', js ''2'', js ''3'', js ''4'', js ''x'']) = 4
   \<and> ctype (analyzeColumn noDate 5 [0 \<mapsto> [js ''1'', js ''2'', js ''3'', js ''4'', js ''x'']]
              (js ''h'') 0) = TString
   \<and> (0::nat) < 1 \<and> length [js ''7'', js ''8''] < 2 ^ 32
   \<and> [] \<notin> set (getcol (collectValues 44 1 [js ''7'', js ''8'']) 0)"
proof -
  have s: "(0::nat) < 1 \<and> length [js ''7'', js ''8''] < 2 ^ 32" by simp
  from column_type_rule [of Map.empty 0 noDate 0 "js ''h''" 1 "[js ''7'', js ''8'']" 44] s
  have g: "[] \<notin> set (getcol (collectValues 44 1 [js ''7'', js ''8'']) 0)" by blast
  have e: "getcol Map.empty 0 = []" by (simp add: getcol_def)
  have b: "getcol [0 \<mapsto> [js ''1'', js ''2'', js ''3'', js ''4'', js ''x'']] 0 \<noteq> []
     \<and> [] \<notin> set (getcol [0 \<mapsto> [js ''1'', js ''2'', js ''3'', js ''4'', js ''x'']] 0)
     \<and> length (getcol [0 \<mapsto> [js ''1'', js ''2'', js ''3'', js ''4'', js ''x'']] 0) < 2 ^ 32"
    by (simp add: w_raw js_def)
  have k: "filter (\<lambda>v. StringToNumber v \<noteq> NaN) [js ''1'', js ''2'', js ''3'', js ''4'', js ''x'']
      = [js ''1'', js ''2'', js ''3'', js ''4'']"
    by (simp add: num_eval fl_eval)
  have j: "filter (\<lambda>v. 5 < length v \<and> StringToNumber v = NaN \<and> noDate v \<noteq> None)
      [js ''1'', js ''2'', js ''3'', js ''4'', js ''x''] = []"
    by (simp add: noDate_def)
  from column_type_rule [of Map.empty 0 noDate 0 "js ''h''"] e
  have "ctype (analyzeColumn noDate 0 Map.empty (js ''h'') 0) = TString
     \<and> stats (analyzeColumn noDate 0 Map.empty (js ''h'') 0) = emptyStats\<lparr>topValues := Some []\<rparr>"
    by blast
  moreover
  from column_type_rule [of "[0 \<mapsto> [js ''1'', js ''2'', js ''3'', js ''4'', js ''x'']]" 0 noDate 5 "js ''h''"] b
  have "ctype (analyzeColumn noDate 5 [0 \<mapsto> [js ''1'', js ''2'', js ''3'', js ''4'', js ''x'']]
              (js ''h'') 0) = TString"
    unfolding w_raw k j by simp
  ultimately show ?thesis using e b g unfolding k by simp
qed

lemma es_tally:
  "tallyOf Date_parse [js ''1''] =
     \<lparr>numericCount = 1, dateCount = 0, numericParsed = [Fin 1], dateParsed = []\<rparr>"
  by (simp add: tallyOf_def num_eval fl_eval)

lemma es_stats:
  "numericStats [Fin 1] =
   \<lparr>histogram = Some [\<lparr>ename = NumToString (Fin 1), evalue = 1\<rparr>],
    topValues = None, smin = Some (Fin 1), smax = Some (Fin 1), mean = Some (Fin 1),
    quants = Some \<lparr>q1 = Some (Fin 1), median = Some (Fin 1), q3 = Some (Fin 1)\<rparr>\<rparr>"
  by (simp add: numericStats_def histogramOf_def Let_def Math_min_def Math_max_def
      sortNumbers_def sortBy_def fsub_def nth_opt_def fl_eval)

lemma es_tally_empty:
  "tallyOf Date_parse [] = \<lparr>numericCount = 0, dateCount = 0, numericParsed = [], dateParsed = []\<rparr>"
  by (simp add: tallyOf_def)

text \<open>
  The claim C4 as stated fails: in the file of the lines \<^verbatim>\<open>a,b\<close> and \<^verbatim>\<open>1,\<close> the sample of
  column \<open>b\<close> is empty, and the column is a string column whose statistics are the bundle
  with an empty list of top values, which is not the empty bundle.
\<close>

theorem empty_sample_stats_counterexample:
  "parseCSV noDate (js ''f.csv'') (unlines [js ''a,b'', js ''1,'']) =
     Inr \<lparr>rowCount = 1,
      columns = [\<lparr>name = js ''a'', ctype = TNumeric, missing = 0, unique = 1, example = Some (js ''1''),
        stats = \<lparr>histogram = Some [\<lparr>ename = NumToString (Fin 1), evalue = 1\<rparr>],
          topValues = None, smin = Some (Fin 1), smax = Some (Fin 1), mean = Some (Fin 1),
          quants = Some \<lparr>q1 = Some (Fin 1), median = Some (Fin 1), q3 = Some (Fin 1)\<rparr>\<rparr>\<rparr>,
       \<lparr>name = js ''b'', ctype = TString, missing = 1, unique = 0, example = None,
        stats = \<lparr>histogram = None, topValues = Some [], smin = None, smax = None,
          mean = None, quants = None\<rparr>\<rparr>],
      preview = [[(js ''a'', Some (js ''1'')), (js ''b'', Some [])]],
      fileName = js ''f.csv''\<rparr>
   \<and> ColumnSample (unlines [js ''a,b'', js ''1,'']) 1 = []
   \<and> \<lparr>histogram = None, topValues = Some [], smin = None, smax = None,
        mean = None, quants = None\<rparr> \<noteq> emptyStats"
proof -
  define rows where "rows = [js ''1,'']"
  define cv where "cv = collectValues 44 2 (take 2000 rows)"
  have ok: "\<forall>l \<in> set (js ''a,b'' # rows). 10 \<notin> set l \<and> 13 \<notin> set l \<and> 65533 \<notin> set l \<and> trim l \<noteq> []"
    by (simp add: rows_def js_def trim_def isWhiteSpace_def)
  have ne: "rows \<noteq> []" by (simp add: rows_def)
  have d: "44 = detectDelimiter (js ''a,b'')" by (simp add: line_eval)
  have hd: "[js ''a'', js ''b''] = splitLine 44 (js ''a,b'')" by (simp add: line_eval)
  have vl: "2 = min (Suc (length rows)) 100" by (simp add: rows_def)
  have m: "0 = length (filter (\<lambda>row. length (splitLine 44 row) \<noteq> length [js ''a'', js ''b''])
                        (take (2 - 1) rows))"
    by (simp add: rows_def line_eval)
  have raw_a: "getcol cv 0 = [js ''1'']"
    unfolding cv_def by (subst getcol_collectValues) (simp_all add: rows_def line_eval)
  have raw_b: "getcol cv 1 = []"
    unfolding cv_def by (subst getcol_collectValues) (simp_all add: rows_def line_eval)
  have col_a: "analyzeColumn noDate 1 cv (js ''a'') 0 =
      \<lparr>name = js ''a'', ctype = TNumeric, missing = 0, unique = 1, example = Some (js ''1''),
       stats = numericStats [Fin 1]\<rparr>"
    by (subst analyzeColumn_numeric [OF raw_a es_tally])
      (simp_all add: isNumericCol_iff nth_opt_def js_def)
  have col_b: "analyzeColumn noDate 1 cv (js ''b'') 1 =
      \<lparr>name = js ''b'', ctype = TString, missing = 1, unique = 0, example = None,
       stats = stringStats []\<rparr>"
    by (subst analyzeColumn_string [OF raw_b es_tally_empty])
      (simp_all add: isNumericCol_def isDateCol_def nth_opt_def)
  have st: "stringStats [] = \<lparr>histogram = None, topValues = Some [], smin = None, smax = None,
          mean = None, quants = None\<rparr>"
    by (simp add: stringStats_def objectEntries_def sortBy_def emptyStats_def)
  have prev: "map (\<lambda>line. previewRow [js ''a'', js ''b''] (splitLine 44 line)) (take 50 rows) =
      [[(js ''a'', Some (js ''1'')), (js ''b'', Some [])]]"
    by (simp add: rows_def previewRow_def setProp_def objectEntries_def isArrayIndex_def isDigit_def
      upt_0_2 nth_opt_def line_eval)
  have len: "length rows = 1" by (simp add: rows_def)
  have l: "nonBlankLines (unlines (js ''a,b'' # rows)) = js ''a,b'' # rows"
    using ok by (intro nonBlankLines_unlines) auto
  have "parseCSV noDate (js ''f.csv'') (unlines (js ''a,b'' # rows)) =
     Inr \<lparr>rowCount = 1,
      columns = [analyzeColumn noDate 1 cv (js ''a'') 0, analyzeColumn noDate 1 cv (js ''b'') 1],
      preview = map (\<lambda>line. previewRow [js ''a'', js ''b''] (splitLine 44 line)) (take 50 rows),
      fileName = js ''f.csv''\<rparr>"
    unfolding parseCSV_unlines [OF ok ne d hd vl m]
    by (simp add: len upt_0_2 cv_def numeral_2_eq_2)
  then have main: "parseCSV noDate (js ''f.csv'') (unlines [js ''a,b'', js ''1,'']) =
     Inr \<lparr>rowCount = 1,
      columns = [\<lparr>name = js ''a'', ctype = TNumeric, missing = 0, unique = 1, example = Some (js ''1''),
        stats = \<lparr>histogram = Some [\<lparr>ename = NumToString (Fin 1), evalue = 1\<rparr>],
          topValues = None, smin = Some (Fin 1), smax = Some (Fin 1), mean = Some (Fin 1),
          quants = Some \<lparr>q1 = Some (Fin 1), median = Some (Fin 1), q3 = Some (Fin 1)\<rparr>\<rparr>\<rparr>,
       \<lparr>name = js ''b'', ctype = TString, missing = 1, unique = 0, example = None,
        stats = \<lparr>histogram = None, topValues = Some [], smin = None, smax = None,
          mean = None, quants = None\<rparr>\<rparr>],
      preview = [[(js ''a'', Some (js ''1'')), (js ''b'', Some [])]],
      fileName = js ''f.csv''\<rparr>"
    unfolding col_a col_b prev es_stats st by (simp add: rows_def)
  have smp: "ColumnSample (unlines [js ''a,b'', js ''1,'']) 1 = []"
    using l by (simp add: ColumnSample_def rows_def line_eval)
  have neq: "\<lparr>histogram = None, topValues = Some [], smin = None, smax = None,
        mean = None, quants = None\<rparr> \<noteq> emptyStats"
    by (simp add: emptyStats_def)
  from main smp neq show ?thesis by (simp only: simp_thms)
qed

theorem sample_count_invariant_witness:
  "parseCSV noDate (js ''f.csv'') (unlines [js ''a,b'', js ''1,x'', js ''2,'']) =
     Inr (projr (parseCSV noDate (js ''f.csv'') (unlines [js ''a,b'', js ''1,x'', js ''2,''])))
   \<and> 1 < length (columns (projr (parseCSV noDate (js ''f.csv'')
                                   (unlines [js ''a,b'', js ''1,x'', js ''2,'']))))
   \<and> ColumnSample (unlines [js ''a,b'', js ''1,x'', js ''2,'']) 1 = [js ''x'']
   \<and> rowCount (projr (parseCSV noDate (js ''f.csv'') (unlines [js ''a,b'', js ''1,x'', js ''2,'']))) = 2
   \<and> missing (columns (projr (parseCSV noDate (js ''f.csv'')
                                 (unlines [js ''a,b'', js ''1,x'', js ''2,'']))) ! 1) = 1
   \<and> unique (columns (projr (parseCSV noDate (js ''f.csv'')
                                (unlines [js ''a,b'', js ''1,x'', js ''2,'']))) ! 1) \<le> 1"
proof -
  define rows where "rows = [js ''1,x'', js ''2,'']"
  define T where "T = unlines (js ''a,b'' # rows)"
  have ok: "\<forall>l \<in> set (js ''a,b'' # rows). 10 \<notin> set l \<and> 13 \<notin> set l \<and> 65533 \<notin> set l \<and> trim l \<noteq> []"
    by (simp add: rows_def js_def trim_def isWhiteSpace_def)
  have ne: "rows \<noteq> []" by (simp add: rows_def)
  have d: "44 = detectDelimiter (js ''a,b'')" by (simp add: line_eval)
  have hd: "[js ''a'', js ''b''] = splitLine 44 (js ''a,b'')" by (simp add: line_eval)
  have vl: "3 = min (Suc (length rows)) 100" by (simp add: rows_def)
  have m: "0 = length (filter (\<lambda>row. length (splitLine 44 row) \<noteq> length [js ''a'', js ''b''])
                        (take (3 - 1) rows))"
    by (simp add: rows_def line_eval)
  have l: "nonBlankLines T = js ''a,b'' # rows"
    unfolding T_def using ok by (intro nonBlankLines_unlines) auto
  have r: "parseCSV noDate (js ''f.csv'') T = Inr (projr (parseCSV noDate (js ''f.csv'') T))"
    and c: "length (columns (projr (parseCSV noDate (js ''f.csv'') T))) = 2"
    and n: "rowCount (projr (parseCSV noDate (js ''f.csv'') T)) = 2"
    unfolding T_def parseCSV_unlines [OF ok ne d hd vl m] by (simp_all add: rows_def)
  have i: "1 < length (columns (projr (parseCSV noDate (js ''f.csv'') T)))" by (simp add: c)
  have s: "ColumnSample T 1 = [js ''x'']"
    unfolding ColumnSample_def l Let_def using d by (simp add: rows_def line_eval)
  from sample_count_invariant [OF r i]
  have "missing (columns (projr (parseCSV noDate (js ''f.csv'') T)) ! 1) = 1"
    and "unique (columns (projr (parseCSV noDate (js ''f.csv'') T)) ! 1) \<le> 1"
    unfolding s n by simp_all
  with r i s n show ?thesis unfolding T_def rows_def by simp
qed

lemma w_lines:
  "nonBlankLines (unlines (js ''a,b,c'' # replicate k (js ''x'') @ replicate j (js ''1,2,3''))) =
     js ''a,b,c'' # replicate k (js ''x'') @ replicate j (js ''1,2,3'')"
  by (intro nonBlankLines_unlines) (auto simp: js_def trim_def isWhiteSpace_def)

lemma w_encoding:
  "65533 \<notin> set (unlines (js ''a,b,c'' # replicate k (js ''x'') @ replicate j (js ''1,2,3'')))"
  by (auto simp: set_unlines js_def)

lemma w_malformed:
  assumes "k + j = 99"
  shows "length (filter (\<lambda>row. length (splitLine 44 row) \<noteq> 3)
           (map (\<lambda>i. (js ''a,b,c'' # replicate k (js ''x'') @ replicate j (js ''1,2,3'')) ! i)
              [1..<100])) = k"
proof -
  have "100 \<le> length (js ''a,b,c'' # replicate k (js ''x'') @ replicate j (js ''1,2,3''))"
    using assms by simp
  then have "map (\<lambda>i. (js ''a,b,c'' # replicate k (js ''x'') @ replicate j (js ''1,2,3'')) ! i) [1..<100]
      = take (100 - 1) (drop 1 (js ''a,b,c'' # replicate k (js ''x'') @ replicate j (js ''1,2,3'')))"
    by (rule sampled_rows)
  also have "\<dots> = replicate k (js ''x'') @ replicate j (js ''1,2,3'')"
    using assms by simp
  finally show ?thesis
    by (simp add: filter_replicate line_eval)
qed

lemma w_header:
  "detectDelimiter (js ''a,b,c'') = 44" "length (splitLine 44 (js ''a,b,c'')) = 3"
  by (simp_all add: line_eval)

theorem integrity_threshold_witness:
  "65533 \<notin> set (unlines (js ''a,b,c'' # replicate 21 (js ''x'') @ replicate 78 (js ''1,2,3'')))
   \<and> 2 \<le> length (nonBlankLines (unlines (js ''a,b,c'' # replicate 21 (js ''x'') @ replicate 78 (js ''1,2,3''))))
   \<and> 100 \<le> length (nonBlankLines (unlines (js ''a,b,c'' # replicate 21 (js ''x'') @ replicate 78 (js ''1,2,3''))))
   \<and> parseCSV noDate (js ''f.csv'') (unlines (js ''a,b,c'' # replicate 21 (js ''x'') @ replicate 78 (js ''1,2,3''))) = Inl (DataIntegrity 21 100 3)
   \<and> 65533 \<notin> set (unlines (js ''a,b,c'' # replicate 20 (js ''x'') @ replicate 79 (js ''1,2,3'')))
   \<and> 2 \<le> length (nonBlankLines (unlines (js ''a,b,c'' # replicate 20 (js ''x'') @ replicate 79 (js ''1,2,3''))))
   \<and> 100 \<le> length (nonBlankLines (unlines (js ''a,b,c'' # replicate 20 (js ''x'') @ replicate 79 (js ''1,2,3''))))
   \<and> \<not> isl (parseCSV noDate (js ''f.csv'') (unlines (js ''a,b,c'' # replicate 20 (js ''x'') @ replicate 79 (js ''1,2,3''))))"
proof -
  define La where "La = js ''a,b,c'' # replicate 21 (js ''x'') @ replicate 78 (js ''1,2,3'')"
  have lena: "length La = 100" by (simp add: La_def)
  have firsta: "La ! 0 = js ''a,b,c''" by (simp add: La_def)
  have linesa: "nonBlankLines (unlines La) = La" unfolding La_def by (rule w_lines)
  have enca: "65533 \<notin> set (unlines La)" unfolding La_def by (rule w_encoding)
  have mala: "length (filter ((\<lambda>row. length (splitLine 44 row) \<noteq> 3) \<circ> (!) La)
           [Suc 0..<100]) = 21"
    using w_malformed [of 21 78] by (simp add: La_def filter_map del: upt_Suc)
  have hypa: "65533 \<notin> set (unlines La) \<and> 2 \<le> length (nonBlankLines (unlines La))"
    by (simp add: enca linesa lena)
  from integrity_threshold [of "unlines La" noDate "js ''f.csv''"] hypa
  have resa: "(parseCSV noDate (js ''f.csv'') (unlines La) = Inl (DataIntegrity 21 100 3)) = (100 < 5 * (21::nat))
      \<and> isl (parseCSV noDate (js ''f.csv'') (unlines La)) = (21 \<le> (21::nat))"
    unfolding Let_def linesa
    by (simp add: firsta lena w_header mala del: upt_Suc)
  define Lb where "Lb = js ''a,b,c'' # replicate 20 (js ''x'') @ replicate 79 (js ''1,2,3'')"
  have lenb: "length Lb = 100" by (simp add: Lb_def)
  have firstb: "Lb ! 0 = js ''a,b,c''" by (simp add: Lb_def)
  have linesb: "nonBlankLines (unlines Lb) = Lb" unfolding Lb_def by (rule w_lines)
  have encb: "65533 \<notin> set (unlines Lb)" unfolding Lb_def by (rule w_encoding)
  have malb: "length (filter ((\<lambda>row. length (splitLine 44 row) \<noteq> 3) \<circ> (!) Lb)
           [Suc 0..<100]) = 20"
    using w_malformed [of 20 79] by (simp add: Lb_def filter_map del: upt_Suc)
  have hypb: "65533 \<notin> set (unlines Lb) \<and> 2 \<le> length (nonBlankLines (unlines Lb))"
    by (simp add: encb linesb lenb)
  from integrity_threshold [of "unlines Lb" noDate "js ''f.csv''"] hypb
  have resb: "(parseCSV noDate (js ''f.csv'') (unlines Lb) = Inl (DataIntegrity 20 100 3)) = (100 < 5 * (20::nat))
      \<and> isl (parseCSV noDate (js ''f.csv'') (unlines Lb)) = (21 \<le> (20::nat))"
    unfolding Let_def linesb
    by (simp add: firstb lenb w_header malb del: upt_Suc)
  have "65533 \<notin> set (unlines La)
   \<and> 2 \<le> length (nonBlankLines (unlines La))
   \<and> 100 \<le> length (nonBlankLines (unlines La))
   \<and> parseCSV noDate (js ''f.csv'') (unlines La) = Inl (DataIntegrity 21 100 3)
   \<and> 65533 \<notin> set (unlines Lb)
   \<and> 2 \<le> length (nonBlankLines (unlines Lb))
   \<and> 100 \<le> length (nonBlankLines (unlines Lb))
   \<and> \<not> isl (parseCSV noDate (js ''f.csv'') (unlines Lb))"
    using resa resb by (simp add: enca encb linesa linesb lena lenb)
  then show ?thesis unfolding La_def Lb_def .
qed

text \<open>
  The claim as stated fails: of the 4 rows sampled after the header \<^verbatim>\<open>a,b\<close> one is malformed,
  which is more than 20% of the 4 sampled rows, and the file is accepted.
\<close>

theorem integrity_sample_size_counterexample:
  "nonBlankLines (unlines [js ''a,b'', js ''1,2'', js ''3,4'', js ''5,6'', js ''7'']) =
     [js ''a,b'', js ''1,2'', js ''3,4'', js ''5,6'', js ''7'']
   \<and> detectDelimiter (js ''a,b'') = 44
   \<and> length (splitLine 44 (js ''a,b'')) = 2
   \<and> length (splitLine 44 (js ''1,2'')) = 2
   \<and> length (splitLine 44 (js ''3,4'')) = 2
   \<and> length (splitLine 44 (js ''5,6'')) = 2
   \<and> length (splitLine 44 (js ''7'')) = 1
   \<and> (2 / 10 :: rat) * 4 < 1
   \<and> \<not> isl (parseCSV noDate (js ''f.csv'')
               (unlines [js ''a,b'', js ''1,2'', js ''3,4'', js ''5,6'', js ''7'']))"
proof -
  define rows where "rows = [js ''1,2'', js ''3,4'', js ''5,6'', js ''7'']"
  have ok: "\<forall>l \<in> set (js ''a,b'' # rows). 10 \<notin> set l \<and> 13 \<notin> set l \<and> 65533 \<notin> set l \<and> trim l \<noteq> []"
    by (simp add: rows_def js_def trim_def isWhiteSpace_def)
  have ne: "rows \<noteq> []" by (simp add: rows_def)
  have d: "44 = detectDelimiter (js ''a,b'')" by (simp add: line_eval)
  have hd: "[js ''a'', js ''b''] = splitLine 44 (js ''a,b'')" by (simp add: line_eval)
  have vl: "5 = min (Suc (length rows)) 100" by (simp add: rows_def)
  have m: "1 = length (filter (\<lambda>row. length (splitLine 44 row) \<noteq> length [js ''a'', js ''b''])
                        (take (5 - 1) rows))"
    by (simp add: rows_def line_eval)
  have l: "nonBlankLines (unlines (js ''a,b'' # rows)) = js ''a,b'' # rows"
    using ok by (intro nonBlankLines_unlines) auto
  have "\<not> isl (parseCSV noDate (js ''f.csv'') (unlines (js ''a,b'' # rows)))"
    unfolding parseCSV_unlines [OF ok ne d hd vl m] by simp
  moreover have "length (splitLine 44 (js ''a,b'')) = 2 \<and> length (splitLine 44 (js ''1,2'')) = 2
    \<and> length (splitLine 44 (js ''3,4'')) = 2 \<and> length (splitLine 44 (js ''5,6'')) = 2
    \<and> length (splitLine 44 (js ''7'')) = 1"
    by (simp add: line_eval)
  ultimately show ?thesis using l d unfolding rows_def by simp
qed

end
